theory Spec2Isabelle
  imports Complex_Main "HOL-Library.Log_Nat" "HOL-Library.Sublist"
begin

section \<open>Values and strings of the script\<close>

text \<open>
  The script \<^verbatim>\<open>scripts/generate-gallery.mjs\<close> reads a JSON array of photo
  descriptors and observes each value in three ways only: \<^verbatim>\<open>typeof v === "string"\<close>,
  the nullish test of \<^verbatim>\<open>??\<close>, and the conversion \<^verbatim>\<open>String(v)\<close>. A value is
  therefore \<^verbatim>\<open>undefined\<close>, \<^verbatim>\<open>null\<close>, a string, or any other value (number,
  boolean, object, array), which carries the text \<^verbatim>\<open>String(v)\<close> gives for it.

  A string is a list of code units. The model covers the code units U+0000 to U+00FF,
  one \<^typ>\<open>char\<close> each.
\<close>

datatype jsval = JUndefined | JNull | JString string | JOther string

definition slash :: char where
  "slash = CHR ''/''"

definition backslash :: char where
  "backslash = CHR 0x5C"

definition dash :: char where
  "dash = CHR ''-''"

definition dot :: char where
  "dot = CHR ''.''"

text \<open>\<^verbatim>\<open>p.startsWith("/")\<close>\<close>

fun startsWithSlash :: "string \<Rightarrow> bool" where
  "startsWithSlash [] = False"
| "startsWithSlash (c # cs) = (c = slash)"

text \<open>\<^verbatim>\<open>s.replaceAll(a, b)\<close> for one-character strings \<open>a\<close> and \<open>b\<close>.\<close>

definition replaceAll :: "char \<Rightarrow> char \<Rightarrow> string \<Rightarrow> string" where
  "replaceAll a b s = map (\<lambda>c. if c = a then b else c) s"

text \<open>
  \<^verbatim>\<open>function ensureLeadingSlash(p) {
    if (typeof p !== "string") return "";
    return p.startsWith("/") ? p : `/${p}`; }\<close>
\<close>

fun ensureLeadingSlash :: "jsval \<Rightarrow> string" where
  "ensureLeadingSlash (JString p) = (if startsWithSlash p then p else slash # p)"
| "ensureLeadingSlash _ = []"

text \<open>\<^verbatim>\<open>function stripLeadingSlash(p) { return p.startsWith("/") ? p.slice(1) : p; }\<close>\<close>

definition stripLeadingSlash :: "string \<Rightarrow> string" where
  "stripLeadingSlash p = (if startsWithSlash p then tl p else p)"

text \<open>
  \<^verbatim>\<open>function normalizeUrlPath(p) {
    const withSlash = ensureLeadingSlash(p);
    return withSlash.replaceAll("\\", "/"); }\<close>
\<close>

definition normalizeUrlPath :: "jsval \<Rightarrow> string" where
  "normalizeUrlPath p = replaceAll backslash slash (ensureLeadingSlash p)"

text \<open>
  \<^verbatim>\<open>String.prototype.trim\<close> removes white space and line terminators from both ends;
  in the range of the model these are TAB, LF, VT, FF, CR, SPACE and NO-BREAK SPACE.
\<close>

definition is_ws :: "char \<Rightarrow> bool" where
  "is_ws c = (of_char c \<in> {9, 10, 11, 12, 13, 32, 160 :: nat})"

definition trim :: "string \<Rightarrow> string" where
  "trim s = rev (dropWhile is_ws (rev (dropWhile is_ws s)))"

text \<open>
  \<^verbatim>\<open>function isNonEmptyString(x) {
    return typeof x === "string" && x.trim().length > 0; }\<close>
\<close>

fun isNonEmptyString :: "jsval \<Rightarrow> bool" where
  "isNonEmptyString (JString x) = (length (trim x) > 0)"
| "isNonEmptyString _ = False"

text \<open>
  \<^verbatim>\<open>String.prototype.toLowerCase\<close>: in the range of the model it adds 32 to the
  code units of A to Z and of the capital letters U+00C0 to U+00DE (U+00D7, the
  multiplication sign, is no letter), and keeps every other code unit.
\<close>

definition lower_char :: "char \<Rightarrow> char" where
  "lower_char c =
     (let n = (of_char c :: nat)
      in if (65 \<le> n \<and> n \<le> 90) \<or> (192 \<le> n \<and> n \<le> 222 \<and> n \<noteq> 215)
         then char_of (n + 32) else c)"

definition toLowerCase :: "string \<Rightarrow> string" where
  "toLowerCase s = map lower_char s"

text \<open>The character class \<^verbatim>\<open>[a-z0-9-_]\<close> of the regular expression in \<^verbatim>\<open>stableIdFromSrc\<close>.\<close>

definition id_char :: "char \<Rightarrow> bool" where
  "id_char c =
     (let n = (of_char c :: nat)
      in (97 \<le> n \<and> n \<le> 122) \<or> (48 \<le> n \<and> n \<le> 57) \<or> c = dash \<or> c = CHR ''_'')"

text \<open>\<^verbatim>\<open>.replaceAll(/[^a-z0-9-_]/g, "")\<close>\<close>

definition strip_non_id :: "string \<Rightarrow> string" where
  "strip_non_id s = filter id_char s"

text \<open>\<^verbatim>\<open>.replaceAll(/-+/g, "-")\<close>: every maximal run of dashes becomes one dash.\<close>

fun squeeze_dashes :: "string \<Rightarrow> string" where
  "squeeze_dashes (a # b # cs) =
     (if a = dash \<and> b = dash then squeeze_dashes (b # cs) else a # squeeze_dashes (b # cs))"
| "squeeze_dashes cs = cs"

text \<open>
  \<^verbatim>\<open>.replaceAll(/^-|-$/g, "")\<close>: the expression matches one dash at index 0 and one
  dash at the last index (a string that is a single dash is matched once, at index 0).
\<close>

definition strip_edge_dash :: "string \<Rightarrow> string" where
  "strip_edge_dash s =
     (let s1 = (if s \<noteq> [] \<and> hd s = dash then tl s else s)
      in if s1 \<noteq> [] \<and> last s1 = dash then butlast s1 else s1)"

text \<open>
  \<^verbatim>\<open>function stableIdFromSrc(src) {
    const normalized = normalizeUrlPath(src).toLowerCase();
    return normalized
      .replaceAll("/", "-")
      .replaceAll(".", "-")
      .replaceAll(/[^a-z0-9-_]/g, "")
      .replaceAll(/-+/g, "-")
      .replaceAll(/^-|-$/g, ""); }\<close>
\<close>

definition stableIdFromSrc :: "jsval \<Rightarrow> string" where
  "stableIdFromSrc src =
     (let normalized = toLowerCase (normalizeUrlPath src)
      in strip_edge_dash (squeeze_dashes (strip_non_id
           (replaceAll dot dash (replaceAll slash dash normalized)))))"

text \<open>No two neighbouring dashes: the shape \<^verbatim>\<open>/-+/\<close> leaves behind.\<close>

fun no_dd :: "string \<Rightarrow> bool" where
  "no_dd (a # b # cs) = (\<not> (a = dash \<and> b = dash) \<and> no_dd (b # cs))"
| "no_dd cs = True"

subsection \<open>The identifier as the specification words it\<close>

text \<open>
  The specification describes \<^verbatim>\<open>deriveId(src)\<close> in five steps: lower-case the
  normalized source URL, replace every \<^verbatim>\<open>/\<close> and \<^verbatim>\<open>.\<close> with \<^verbatim>\<open>-\<close>, strip any
  character outside \<^verbatim>\<open>[a-z0-9-_]\<close>, collapse runs of \<^verbatim>\<open>-\<close> into one, and trim
  leading and trailing \<^verbatim>\<open>-\<close>. The definitions below follow these words, not the code.
\<close>

definition id_class :: "char set" where
  "id_class = set ''abcdefghijklmnopqrstuvwxyz0123456789-_''"

function collapse_runs :: "string \<Rightarrow> string" where
  "collapse_runs [] = []"
| "collapse_runs (c # cs) =
     (if c = dash then dash # collapse_runs (dropWhile (\<lambda>d. d = dash) cs)
      else c # collapse_runs cs)"
  by pat_completeness auto
termination
  by (relation "measure length") (auto simp: less_Suc_eq_le length_dropWhile_le)

definition trim_dashes :: "string \<Rightarrow> string" where
  "trim_dashes s = rev (dropWhile (\<lambda>c. c = dash) (rev (dropWhile (\<lambda>c. c = dash) s)))"

definition deriveId_spec :: "jsval \<Rightarrow> string" where
  "deriveId_spec src =
     trim_dashes (collapse_runs (filter (\<lambda>c. c \<in> id_class)
       (map (\<lambda>c. if c = slash \<or> c = dot then dash else c)
         (toLowerCase (normalizeUrlPath src)))))"

section \<open>Thumbnail dimensions\<close>

text \<open>
  A JavaScript number is an IEEE 754 double. A finite double is a rational number, and
  each arithmetic operation returns the exact result rounded to the nearest double,
  ties to the even significand. \<open>to_double\<close> is that rounding, for a significand of 53
  bits and an exponent without bounds: the quotients and products of image dimensions
  below \<open>2\<^sup>3\<^sup>2\<close> are far from overflow and from the subnormal range.
\<close>

text \<open>The exponent \<open>e\<close> of a positive rational: \<open>2\<^sup>e \<le> x < 2\<^sup>e\<^sup>+\<^sup>1\<close>.\<close>

definition ilog2 :: "rat \<Rightarrow> int" where
  "ilog2 x =
     (let (a, b) = quotient_of x; d = bitlen a - bitlen b
      in if 2 powi d \<le> x then d else d - 1)"

text \<open>The nearest integer, a tie going to the even one.\<close>

definition round_even :: "rat \<Rightarrow> int" where
  "round_even y =
     (let f = \<lfloor>y\<rfloor>; d = y - of_int f
      in if d < 1 / 2 then f else if 1 / 2 < d then f + 1 else if even f then f else f + 1)"

definition to_double :: "rat \<Rightarrow> rat" where
  "to_double x =
     (if x = 0 then 0
      else let s = ilog2 \<bar>x\<bar> - 52 in of_int (round_even (x / 2 powi s)) * 2 powi s)"

text \<open>The operators \<^verbatim>\<open>/\<close> and \<^verbatim>\<open>*\<close> on doubles.\<close>

definition fdiv :: "rat \<Rightarrow> rat \<Rightarrow> rat" where
  "fdiv a b = to_double (a / b)"

definition fmul :: "rat \<Rightarrow> rat \<Rightarrow> rat" where
  "fmul a b = to_double (a * b)"

text \<open>\<^verbatim>\<open>Math.round\<close>: the nearest integer, a tie going up.\<close>

definition Math_round :: "rat \<Rightarrow> int" where
  "Math_round x = \<lfloor>x + 1 / 2\<rfloor>"

text \<open>\<^verbatim>\<open>const THUMB_WIDTH = 900; const THUMB_QUALITY = 78;\<close>\<close>

definition THUMB_WIDTH :: nat where
  "THUMB_WIDTH = 900"

definition THUMB_QUALITY :: nat where
  "THUMB_QUALITY = 78"

text \<open>
  \<^verbatim>\<open>const thumbWidth = Math.min(THUMB_WIDTH, width);
  const thumbHeight = Math.max(1, Math.round((height / width) * thumbWidth));\<close>
  for the positive integers \<open>width\<close> and \<open>height\<close> the image library reports.
\<close>

definition thumbWidth_of :: "nat \<Rightarrow> nat" where
  "thumbWidth_of width = min THUMB_WIDTH width"

definition thumbHeight_of :: "nat \<Rightarrow> nat \<Rightarrow> nat" where
  "thumbHeight_of width height =
     nat (max 1 (Math_round
       (fmul (fdiv (of_nat height) (of_nat width)) (of_nat (thumbWidth_of width)))))"

text \<open>
  The height as the specification words it, in exact arithmetic:
  \<^verbatim>\<open>max(1, round(sourceHeight * thumbWidth / sourceWidth))\<close> with
  \<^verbatim>\<open>thumbWidth = min(900, sourceWidth)\<close>.
\<close>

definition exact_thumbHeight :: "nat \<Rightarrow> nat \<Rightarrow> nat" where
  "exact_thumbHeight width height =
     nat (max 1 (round (of_nat height * of_nat (min 900 width) / of_nat width :: rat)))"

section \<open>Paths\<close>

text \<open>
  The script calls \<^verbatim>\<open>dirname\<close>, \<^verbatim>\<open>basename\<close>, \<^verbatim>\<open>extname\<close> and \<^verbatim>\<open>join\<close> of
  Node's \<^verbatim>\<open>path.posix\<close>. They are modelled as Node's \<^verbatim>\<open>lib/path.js\<close> computes
  them. A path is cut at its slashes into segments; \<open>split_slash\<close> keeps the empty
  segments, as \<^verbatim>\<open>String.prototype.split("/")\<close> does.
\<close>

fun split_slash :: "string \<Rightarrow> string list" where
  "split_slash [] = [[]]"
| "split_slash (c # cs) =
     (if c = slash then [] # split_slash cs
      else (case split_slash cs of [] \<Rightarrow> [[c]] | x # xs \<Rightarrow> (c # x) # xs))"

fun join_slash :: "string list \<Rightarrow> string" where
  "join_slash [] = []"
| "join_slash [x] = x"
| "join_slash (x # y # zs) = x @ slash # join_slash (y # zs)"

text \<open>
  \<^verbatim>\<open>normalizeString(path, allowAboveRoot, "/", isPosixPathSeparator)\<close>: an empty segment
  and \<^verbatim>\<open>.\<close> are dropped; \<^verbatim>\<open>..\<close> removes the segment before it, unless there is none
  or it is \<^verbatim>\<open>..\<close> itself, where \<^verbatim>\<open>..\<close> is kept if \<open>allowAboveRoot\<close> and dropped
  otherwise; any other segment is kept.
\<close>

definition push_segment :: "bool \<Rightarrow> string list \<Rightarrow> string \<Rightarrow> string list" where
  "push_segment allowAboveRoot res seg =
     (if seg = [] \<or> seg = ''.'' then res
      else if seg = ''..'' then
        (if res \<noteq> [] \<and> last res \<noteq> ''..'' then butlast res
         else if allowAboveRoot then res @ [''..''] else res)
      else res @ [seg])"

definition normalizeString :: "string \<Rightarrow> bool \<Rightarrow> string" where
  "normalizeString path allowAboveRoot =
     join_slash (foldl (push_segment allowAboveRoot) [] (split_slash path))"

text \<open>\<^verbatim>\<open>path.posix.normalize(path)\<close>\<close>

definition posix_normalize :: "string \<Rightarrow> string" where
  "posix_normalize path =
     (if path = [] then ''.''
      else
        let isAbsolute = (hd path = slash);
            trailingSeparator = (last path = slash);
            p = normalizeString path (\<not> isAbsolute)
        in if p = [] then (if isAbsolute then ''/'' else if trailingSeparator then ''./'' else ''.'')
           else (if isAbsolute then [slash] else []) @ p @ (if trailingSeparator then [slash] else []))"

text \<open>
  \<^verbatim>\<open>path.posix.join(...args)\<close>: the non-empty arguments, joined by slashes and
  normalized; \<^verbatim>\<open>"."\<close> when there is none.
\<close>

definition posix_join :: "string list \<Rightarrow> string" where
  "posix_join args =
     (let joined = join_slash (filter (\<lambda>arg. arg \<noteq> []) args)
      in if joined = [] then ''.'' else posix_normalize joined)"

text \<open>
  The last component of a path, read from the end: the trailing slashes are skipped,
  then the characters up to the slash before them are taken.
\<close>

definition last_component :: "string \<Rightarrow> string" where
  "last_component path =
     rev (takeWhile (\<lambda>c. c \<noteq> slash) (dropWhile (\<lambda>c. c = slash) (rev path)))"

text \<open>
  \<^verbatim>\<open>path.posix.dirname(path)\<close>: the loop runs from the last index down to index 1,
  skips the trailing slashes and the last component, and stops at the slash before it.
\<close>

definition posix_dirname :: "string \<Rightarrow> string" where
  "posix_dirname path =
     (if path = [] then ''.''
      else
        let hasRoot = (hd path = slash);
            t = dropWhile (\<lambda>c. c \<noteq> slash) (dropWhile (\<lambda>c. c = slash) (rev (tl path)));
            end = length t
        in if t = [] then (if hasRoot then ''/'' else ''.'')
           else if hasRoot \<and> end = 1 then ''//''
           else take end path)"

text \<open>
  \<^verbatim>\<open>path.posix.extname(path)\<close>: the last component from its last dot on; empty when
  the component has no dot, when its last dot is its first character, or when the
  component is \<^verbatim>\<open>..\<close>.
\<close>

definition posix_extname :: "string \<Rightarrow> string" where
  "posix_extname path =
     (let comp = last_component path
      in if dot \<notin> set comp then []
         else
           let ext = dot # rev (takeWhile (\<lambda>c. c \<noteq> dot) (rev comp));
               stem = rev (tl (dropWhile (\<lambda>c. c \<noteq> dot) (rev comp)))
           in if stem = [] \<or> comp = ''..'' then [] else ext)"

text \<open>
  \<^verbatim>\<open>path.posix.basename(path, suffix)\<close>. Without a usable suffix the result is the
  last component. With one, the component is compared with the suffix from the end:
  when the suffix ends the component it is cut off (unless nothing would remain); when
  the component is shorter than the suffix and agrees with its end, Node returns the
  path from the component's start to the end of the path; otherwise the component.
\<close>

definition posix_basename :: "string \<Rightarrow> string \<Rightarrow> string" where
  "posix_basename path sfx =
     (let comp = last_component path
      in if sfx \<noteq> [] \<and> length sfx \<le> length path then
           if sfx = path then []
           else if suffix sfx comp then
             (if length sfx = length comp then comp
              else take (length comp - length sfx) comp)
           else if suffix comp sfx then
             drop (length (dropWhile (\<lambda>c. c \<noteq> slash) (dropWhile (\<lambda>c. c = slash) (rev path)))) path
           else comp
         else comp)"

text \<open>
  \<^verbatim>\<open>function toThumbUrl(srcUrl) {
    const srcNoSlash = stripLeadingSlash(normalizeUrlPath(srcUrl));
    const srcDir = path.posix.dirname(srcNoSlash);
    const base = path.posix.basename(srcNoSlash, path.posix.extname(srcNoSlash));
    const rel = path.posix.join("gallery", "thumbs", srcDir, `${base}.jpg`);
    return `/${rel}`.replaceAll("\\", "/"); }\<close>
\<close>

definition toThumbUrl :: "jsval \<Rightarrow> string" where
  "toThumbUrl srcUrl =
     (let srcNoSlash = stripLeadingSlash (normalizeUrlPath srcUrl);
          srcDir = posix_dirname srcNoSlash;
          base = posix_basename srcNoSlash (posix_extname srcNoSlash);
          rel = posix_join [''gallery'', ''thumbs'', srcDir, base @ ''.jpg'']
      in replaceAll backslash slash (slash # rel))"

text \<open>A segment that normalization keeps as it is.\<close>

definition plain_segment :: "string \<Rightarrow> bool" where
  "plain_segment seg = (seg \<noteq> [] \<and> seg \<noteq> ''.'' \<and> seg \<noteq> ''..'' \<and> slash \<notin> set seg)"

section \<open>The run\<close>

subsection \<open>Data\<close>

text \<open>
  One element of the parsed array, as the loop reads it: the values of \<^verbatim>\<open>item?.src\<close>,
  \<^verbatim>\<open>item?.title\<close>, \<^verbatim>\<open>item?.shotUsing\<close>, \<^verbatim>\<open>item?.location\<close> and
  \<^verbatim>\<open>item?.description\<close>. A missing property reads \<^verbatim>\<open>undefined\<close>, and so does every
  property of an element that is \<^verbatim>\<open>null\<close> or a primitive value.
\<close>

record raw_item =
  item_src :: jsval
  item_title :: jsval
  item_shotUsing :: jsval
  item_location :: jsval
  item_description :: jsval

text \<open>The value \<^verbatim>\<open>JSON.parse\<close> returns: an array or something else.\<close>

datatype json = NotArray | JArray "raw_item list"

text \<open>\<^verbatim>\<open>GalleryPhoto\<close> and \<^verbatim>\<open>GalleryManifest\<close> of \<^verbatim>\<open>src/features/gallery/types.ts\<close>.\<close>

record photo =
  photo_id :: string
  photo_src :: string
  photo_thumbSrc :: string
  photo_width :: nat
  photo_height :: nat
  photo_thumbWidth :: nat
  photo_thumbHeight :: nat
  photo_title :: string
  photo_shotUsing :: string
  photo_location :: string
  photo_description :: string

record thumb_policy =
  policy_width :: nat
  policy_quality :: nat
  policy_format :: string

record manifest =
  generatedAt :: string
  thumb :: thumb_policy
  photos :: "photo list"

text \<open>The result of \<^verbatim>\<open>fs.stat\<close>, as far as the script reads it.\<close>

record stats =
  isFile :: bool
  mtimeMs :: rat

text \<open>
  The calls that change the file system, in the order the run makes them:
  \<^verbatim>\<open>fs.mkdir(dir, { recursive: true })\<close>, the image pipeline
  \<^verbatim>\<open>sharp(input).rotate().resize({ width, height, ... }).jpeg(...).toFile(output)\<close>, and
  \<^verbatim>\<open>fs.writeFile(path, document)\<close>. The manifest document is kept as the manifest
  value; its JSON text is not modelled.
\<close>

datatype effect =
  Mkdir string
| ToFile string nat nat string
| WriteFile string manifest

text \<open>
  A failure is an \<^verbatim>\<open>Error\<close> the script throws itself, with its message, or the
  rejection of a library call (\<^verbatim>\<open>fs\<close>, \<^verbatim>\<open>JSON.parse\<close>, \<^verbatim>\<open>sharp\<close>).
\<close>

datatype error = Error string | Rejection string

text \<open>
  What the run cannot decide by itself: the working directory, and the answers of the
  file system, the image library and the clock. An answer may depend on the calls the
  run has made so far. \<open>readJson\<close> is \<^verbatim>\<open>fs.readFile\<close> followed by \<^verbatim>\<open>JSON.parse\<close>;
  \<open>stat\<close> gives \<open>None\<close> when \<^verbatim>\<open>fs.stat\<close> rejects; \<open>mkdir\<close>, \<open>toFile\<close> and
  \<open>writeFile\<close> give the message of their rejection, or \<open>None\<close> when they succeed;
  \<open>metadata\<close> gives the \<^verbatim>\<open>width\<close> and \<^verbatim>\<open>height\<close> of \<^verbatim>\<open>sharp(path).metadata()\<close>,
  each possibly \<^verbatim>\<open>undefined\<close>; \<open>now\<close> is \<^verbatim>\<open>new Date().toISOString()\<close>.
\<close>

record env =
  cwd :: string
  readJson :: "string \<Rightarrow> string + json"
  stat :: "effect list \<Rightarrow> string \<Rightarrow> stats option"
  mkdir :: "effect list \<Rightarrow> string \<Rightarrow> string option"
  metadata :: "effect list \<Rightarrow> string \<Rightarrow> string + (nat option \<times> nat option)"
  toFile :: "effect list \<Rightarrow> string \<Rightarrow> nat \<Rightarrow> nat \<Rightarrow> string \<Rightarrow> string option"
  writeFile :: "effect list \<Rightarrow> string \<Rightarrow> manifest \<Rightarrow> string option"
  now :: "effect list \<Rightarrow> string"

subsection \<open>Constants and small helpers\<close>

text \<open>
  \<^verbatim>\<open>const PROJECT_ROOT = process.cwd();
  const PUBLIC_DIR = path.join(PROJECT_ROOT, "public");
  const SOURCE_JSON = path.join(PROJECT_ROOT, "src", "data", "gallery.json");
  const GENERATED_DIR = path.join(PROJECT_ROOT, "src", "generated");
  const MANIFEST_JSON = path.join(GENERATED_DIR, "gallery.manifest.json");
  const THUMBS_PUBLIC_DIR = path.join(PUBLIC_DIR, "gallery", "thumbs");\<close>
  with \<^verbatim>\<open>path\<close> the POSIX one.
\<close>

definition PROJECT_ROOT :: "env \<Rightarrow> string" where
  "PROJECT_ROOT e = cwd e"

definition PUBLIC_DIR :: "env \<Rightarrow> string" where
  "PUBLIC_DIR e = posix_join [PROJECT_ROOT e, ''public'']"

definition SOURCE_JSON :: "env \<Rightarrow> string" where
  "SOURCE_JSON e = posix_join [PROJECT_ROOT e, ''src'', ''data'', ''gallery.json'']"

definition GENERATED_DIR :: "env \<Rightarrow> string" where
  "GENERATED_DIR e = posix_join [PROJECT_ROOT e, ''src'', ''generated'']"

definition MANIFEST_JSON :: "env \<Rightarrow> string" where
  "MANIFEST_JSON e = posix_join [GENERATED_DIR e, ''gallery.manifest.json'']"

definition THUMBS_PUBLIC_DIR :: "env \<Rightarrow> string" where
  "THUMBS_PUBLIC_DIR e = posix_join [PUBLIC_DIR e, ''gallery'', ''thumbs'']"

text \<open>
  \<^verbatim>\<open>function toFsPathFromPublicUrl(urlPath) {
    const rel = stripLeadingSlash(normalizeUrlPath(urlPath));
    return path.join(PUBLIC_DIR, rel); }\<close>
\<close>

definition toFsPathFromPublicUrl :: "env \<Rightarrow> jsval \<Rightarrow> string" where
  "toFsPathFromPublicUrl e urlPath =
     (let rel = stripLeadingSlash (normalizeUrlPath urlPath)
      in posix_join [PUBLIC_DIR e, rel])"

text \<open>
  \<^verbatim>\<open>async function fileMtimeMs(filePath) {
    try { const st = await fs.stat(filePath); return st.mtimeMs; }
    catch { return -1; } }\<close>
\<close>

definition fileMtimeMs :: "env \<Rightarrow> effect list \<Rightarrow> string \<Rightarrow> rat" where
  "fileMtimeMs e h filePath =
     (case stat e h filePath of Some st \<Rightarrow> mtimeMs st | None \<Rightarrow> - 1)"

text \<open>\<^verbatim>\<open>const shouldGenerate = thumbMtime < 0 || srcMtime > thumbMtime;\<close>\<close>

definition shouldGenerate :: "rat \<Rightarrow> rat \<Rightarrow> bool" where
  "shouldGenerate srcMtime thumbMtime = (thumbMtime < 0 \<or> srcMtime > thumbMtime)"

text \<open>The operator \<^verbatim>\<open>??\<close> and the conversion \<^verbatim>\<open>String(v)\<close>.\<close>

fun nullish_or :: "jsval \<Rightarrow> jsval \<Rightarrow> jsval" where
  "nullish_or JUndefined d = d"
| "nullish_or JNull d = d"
| "nullish_or v d = v"

fun String_of :: "jsval \<Rightarrow> string" where
  "String_of (JString s) = s"
| "String_of (JOther r) = r"
| "String_of JUndefined = ''undefined''"
| "String_of JNull = ''null''"

text \<open>A number in a template literal: \<^verbatim>\<open>`${idx}`\<close>, in decimal.\<close>

fun show_nat :: "nat \<Rightarrow> string" where
  "show_nat n =
     (if n < 10 then [''0123456789'' ! n]
      else show_nat (n div 10) @ [''0123456789'' ! (n mod 10)])"

text \<open>The messages of the three errors the loop throws.\<close>

definition src_error :: "nat \<Rightarrow> string" where
  "src_error idx = ''gallery.json['' @ show_nat idx @ ''].src must be a non-empty string''"

definition missing_file_error :: "nat \<Rightarrow> string \<Rightarrow> string" where
  "missing_file_error idx absSrc =
     ''Missing file for gallery.json['' @ show_nat idx @ ''].src: expected '' @ absSrc"

definition dimensions_error :: "string \<Rightarrow> string" where
  "dimensions_error src =
     ''Could not read dimensions for '' @ src @ '' (check file format / corruption)''"

subsection \<open>The loop body and the main function\<close>

text \<open>
  One turn of \<^verbatim>\<open>for (const [idx, item] of parsed.entries())\<close>, lines 81 to 149 of the
  script. It takes the calls made so far and returns them extended, with the photo it
  pushes or the error it throws.
\<close>

definition process_item ::
  "env \<Rightarrow> nat \<Rightarrow> raw_item \<Rightarrow> effect list \<Rightarrow> (error + photo) \<times> effect list" where
  "process_item e idx item h =
     (let src = normalizeUrlPath (nullish_or (item_src item) (JString []));
          title = trim (String_of (nullish_or (item_title item) (JString [])));
          shotUsing = trim (String_of (nullish_or (item_shotUsing item) (JString [])));
          location = trim (String_of (nullish_or (item_location item) (JString [])));
          description = trim (String_of (nullish_or (item_description item) (JString [])))
      in
      if \<not> isNonEmptyString (JString src) then (Inl (Error (src_error idx)), h)
      else
        let absSrc = toFsPathFromPublicUrl e (JString src);
            absSrcStat = stat e h absSrc
        in
        if \<not> (case absSrcStat of None \<Rightarrow> False | Some st \<Rightarrow> isFile st)
        then (Inl (Error (missing_file_error idx absSrc)), h)
        else
          let thumbSrc = toThumbUrl (JString src);
              absThumb = toFsPathFromPublicUrl e (JString thumbSrc);
              h1 = h @ [Mkdir (posix_dirname absThumb)]
          in
          case mkdir e h (posix_dirname absThumb) of
            Some msg \<Rightarrow> (Inl (Rejection msg), h1)
          | None \<Rightarrow>
              let srcMtime = fileMtimeMs e h1 absSrc;
                  thumbMtime = fileMtimeMs e h1 absThumb
              in
              case metadata e h1 absSrc of
                Inl msg \<Rightarrow> (Inl (Rejection msg), h1)
              | Inr meta \<Rightarrow>
                  let width = (case fst meta of None \<Rightarrow> 0 | Some w \<Rightarrow> w);
                      height = (case snd meta of None \<Rightarrow> 0 | Some v \<Rightarrow> v)
                  in
                  if width = 0 \<or> height = 0 then (Inl (Error (dimensions_error src)), h1)
                  else
                    let thumbWidth = thumbWidth_of width;
                        thumbHeight = thumbHeight_of width height;
                        p = \<lparr>photo_id = stableIdFromSrc (JString src), photo_src = src,
                             photo_thumbSrc = thumbSrc, photo_width = width,
                             photo_height = height, photo_thumbWidth = thumbWidth,
                             photo_thumbHeight = thumbHeight, photo_title = title,
                             photo_shotUsing = shotUsing, photo_location = location,
                             photo_description = description\<rparr>
                    in
                    if shouldGenerate srcMtime thumbMtime then
                      (let h2 = h1 @ [ToFile absSrc thumbWidth thumbHeight absThumb]
                       in case toFile e h1 absSrc thumbWidth thumbHeight absThumb of
                            Some msg \<Rightarrow> (Inl (Rejection msg), h2)
                          | None \<Rightarrow> (Inr p, h2))
                    else (Inr p, h1))"

text \<open>The loop: the items in array order, \<open>idx\<close> counting up, the array \<^verbatim>\<open>photos\<close> (here
  \<open>ps\<close>) growing at its end.\<close>

fun process_items ::
  "env \<Rightarrow> nat \<Rightarrow> raw_item list \<Rightarrow> photo list \<Rightarrow> effect list
     \<Rightarrow> (error + photo list) \<times> effect list" where
  "process_items e idx [] ps h = (Inr ps, h)"
| "process_items e idx (item # items) ps h =
     (case process_item e idx item h of
        (Inl err, h') \<Rightarrow> (Inl err, h')
      | (Inr p, h') \<Rightarrow> process_items e (Suc idx) items (ps @ [p]) h')"

text \<open>\<^verbatim>\<open>async function main()\<close>, lines 67 to 159.\<close>

definition main :: "env \<Rightarrow> (error + unit) \<times> effect list" where
  "main e =
     (case readJson e (SOURCE_JSON e) of
        Inl msg \<Rightarrow> (Inl (Rejection msg), [])
      | Inr NotArray \<Rightarrow> (Inl (Error (''Expected an array in '' @ SOURCE_JSON e)), [])
      | Inr (JArray parsed) \<Rightarrow>
          (case mkdir e [] (GENERATED_DIR e) of
             Some msg \<Rightarrow> (Inl (Rejection msg), [Mkdir (GENERATED_DIR e)])
           | None \<Rightarrow>
               (case mkdir e [Mkdir (GENERATED_DIR e)] (THUMBS_PUBLIC_DIR e) of
                  Some msg \<Rightarrow>
                    (Inl (Rejection msg), [Mkdir (GENERATED_DIR e), Mkdir (THUMBS_PUBLIC_DIR e)])
                | None \<Rightarrow>
                    (case process_items e 0 parsed []
                            [Mkdir (GENERATED_DIR e), Mkdir (THUMBS_PUBLIC_DIR e)] of
                       (Inl err, h) \<Rightarrow> (Inl err, h)
                     | (Inr ps, h) \<Rightarrow>
                         let manifest =
                               \<lparr>generatedAt = now e h,
                                thumb = \<lparr>policy_width = THUMB_WIDTH,
                                         policy_quality = THUMB_QUALITY,
                                         policy_format = ''jpeg''\<rparr>,
                                photos = ps\<rparr>;
                             h' = h @ [WriteFile (MANIFEST_JSON e) manifest]
                         in case writeFile e h (MANIFEST_JSON e) manifest of
                              Some msg \<Rightarrow> (Inl (Rejection msg), h')
                            | None \<Rightarrow> (Inr (), h')))))"

text \<open>
  \<^verbatim>\<open>main().catch((err) => { console.error(...); console.error(err);
    process.exitCode = 1; });\<close>
  The run ends with the exit code (0 unless the handler sets it), the error the handler
  prints, if any, and the calls made.
\<close>

record outcome =
  exitCode :: nat
  printed :: "error option"
  calls :: "effect list"

definition run :: "env \<Rightarrow> outcome" where
  "run e =
     (case main e of
        (Inl err, h) \<Rightarrow> \<lparr>exitCode = 1, printed = Some err, calls = h\<rparr>
      | (Inr u, h) \<Rightarrow> \<lparr>exitCode = 0, printed = None, calls = h\<rparr>)"

text \<open>Whether a call is an \<^verbatim>\<open>fs.writeFile\<close>: the script has one, for the manifest.\<close>

fun is_write :: "effect \<Rightarrow> bool" where
  "is_write (WriteFile p m) = True"
| "is_write _ = False"

text \<open>Whether a call writes the file at \<open>path\<close>, as a document or as a thumbnail.\<close>

fun writes_to :: "string \<Rightarrow> effect \<Rightarrow> bool" where
  "writes_to path (WriteFile p m) = (p = path)"
| "writes_to path (ToFile i w v out) = (out = path)"
| "writes_to path (Mkdir d) = False"

text \<open>The \<^verbatim>\<open>src\<close> of the loop body: \<^verbatim>\<open>normalizeUrlPath(item?.src ?? "")\<close>.\<close>

definition src_of :: "raw_item \<Rightarrow> string" where
  "src_of item = normalizeUrlPath (nullish_or (item_src item) (JString []))"

text \<open>
  The \<^verbatim>\<open>absSrc\<close> and \<^verbatim>\<open>absThumb\<close> of the loop body:
  \<^verbatim>\<open>toFsPathFromPublicUrl(src)\<close> and \<^verbatim>\<open>toFsPathFromPublicUrl(toThumbUrl(src))\<close>.
\<close>

definition absSrc_of :: "env \<Rightarrow> raw_item \<Rightarrow> string" where
  "absSrc_of e item = toFsPathFromPublicUrl e (JString (src_of item))"

definition absThumb_of :: "env \<Rightarrow> raw_item \<Rightarrow> string" where
  "absThumb_of e item =
     toFsPathFromPublicUrl e (JString (toThumbUrl (JString (src_of item))))"

text \<open>The text fields of the loop body: \<^verbatim>\<open>String(v ?? "").trim()\<close>.\<close>

definition text_of :: "jsval \<Rightarrow> string" where
  "text_of v = trim (String_of (nullish_or v (JString [])))"

subsection \<open>An example site\<close>

text \<open>
  A small world to run the script in: the project lies in \<^verbatim>\<open>/site\<close>, the files
  \<^verbatim>\<open>public/photos/a.png\<close> and \<^verbatim>\<open>public/photos/b.png\<close> exist, each an image of 4 by 3
  pixels last modified at time 1000, \<^verbatim>\<open>public\<close> is a directory, and nothing else
  exists until the run writes it (a thumbnail once written has the time 2000). Every
  \<^verbatim>\<open>mkdir\<close>, \<^verbatim>\<open>toFile\<close> and \<^verbatim>\<open>writeFile\<close> succeeds. The input array is a parameter.
\<close>

definition example_item :: "jsval \<Rightarrow> raw_item" where
  "example_item s =
     \<lparr>item_src = s, item_title = JString '' Rome '', item_shotUsing = JUndefined,
      item_location = JNull, item_description = JOther ''42''\<rparr>"

fun written_to :: "string \<Rightarrow> effect \<Rightarrow> bool" where
  "written_to path (ToFile i w v out) = (out = path)"
| "written_to path _ = False"

definition example_stat :: "effect list \<Rightarrow> string \<Rightarrow> stats option" where
  "example_stat h p =
     (if p = ''/site/public/photos/a.png'' \<or> p = ''/site/public/photos/b.png''
      then Some \<lparr>isFile = True, mtimeMs = 1000\<rparr>
      else if list_ex (written_to p) h then Some \<lparr>isFile = True, mtimeMs = 2000\<rparr>
      else if p = ''/site/public'' then Some \<lparr>isFile = False, mtimeMs = 500\<rparr>
      else None)"

definition example_env :: "raw_item list \<Rightarrow> env" where
  "example_env items =
     \<lparr>cwd = ''/site'',
      readJson = (\<lambda>p. if p = ''/site/src/data/gallery.json'' then Inr (JArray items)
                     else Inl ''ENOENT''),
      stat = example_stat,
      mkdir = (\<lambda>h p. None),
      metadata = (\<lambda>h p. Inr (Some 4, Some 3)),
      toFile = (\<lambda>h i w v out. None),
      writeFile = (\<lambda>h p m. None),
      now = (\<lambda>h. ''2024-01-01T00:00:00.000Z'')\<rparr>"

text \<open>
  A second world, for the time stamps: every path is a regular file, the paths ending
  in \<^verbatim>\<open>.jpg\<close> (the thumbnails) with the time stamp \<open>t\<close> and all others (the sources)
  with the time stamp \<open>s\<close>, whatever the run has done. The rest is as in the example
  site.
\<close>

definition stamped_env :: "rat \<Rightarrow> rat \<Rightarrow> raw_item list \<Rightarrow> env" where
  "stamped_env s t items =
     (example_env items)
       \<lparr>stat := (\<lambda>h p. Some \<lparr>isFile = True,
                                 mtimeMs = (if suffix ''.jpg'' p then t else s)\<rparr>)\<rparr>"

section \<open>Properties of the path and identifier functions\<close>

lemma no_dd_sublist: "no_dd xs \<longleftrightarrow> \<not> sublist [dash, dash] xs"
proof (induction xs rule: no_dd.induct)
  case (1 a b cs)
  then show ?case by (auto simp: sublist_Cons_right)
qed (auto simp: sublist_Cons_right)

lemma squeeze_dashes_hd: "squeeze_dashes (a # cs) \<noteq> [] \<and> hd (squeeze_dashes (a # cs)) = a"
  by (induction cs arbitrary: a) auto

lemma squeeze_no_dd: "no_dd (squeeze_dashes xs)"
proof (induction xs rule: squeeze_dashes.induct)
  case (1 a b cs)
  obtain ys where ys: "squeeze_dashes (b # cs) = b # ys"
    using squeeze_dashes_hd [of b cs] by (cases "squeeze_dashes (b # cs)") auto
  with 1 show ?case by auto
qed auto

lemma set_squeeze_dashes: "set (squeeze_dashes xs) \<subseteq> set xs"
  by (induction xs rule: squeeze_dashes.induct) auto

lemma no_dd_tl: "no_dd xs \<Longrightarrow> no_dd (tl xs)"
  by (induction xs rule: no_dd.induct) auto

lemma no_dd_butlast: "no_dd xs \<Longrightarrow> no_dd (butlast xs)"
  by (induction xs rule: no_dd.induct) (auto split: if_splits)

lemma no_dd_snoc: "no_dd (xs @ [dash]) \<Longrightarrow> xs \<noteq> [] \<Longrightarrow> last xs \<noteq> dash"
  by (induction xs rule: no_dd.induct) (auto split: if_splits)

lemma strip_edge_dash_no_dd: "no_dd s \<Longrightarrow> no_dd (strip_edge_dash s)"
  by (auto simp: strip_edge_dash_def Let_def no_dd_tl no_dd_butlast)

lemma strip_edge_dash_set: "set (strip_edge_dash s) \<subseteq> set s"
  by (auto simp: strip_edge_dash_def Let_def dest: in_set_butlastD list.set_sel(2))

lemma no_dd_dropWhile:
  "no_dd s \<Longrightarrow> dropWhile (\<lambda>c. c = dash) s = (if s \<noteq> [] \<and> hd s = dash then tl s else s)"
  by (cases s rule: no_dd.cases) auto

lemma no_dd_rev: "no_dd (rev s) = no_dd s"
  by (simp add: no_dd_sublist) (metis rev.simps rev_rev_ident sublist_rev_left append_Cons append_Nil)

lemma strip_edge_dash_trim:
  assumes s: "no_dd s"
  shows "strip_edge_dash s = trim_dashes s"
proof -
  let ?s1 = "if s \<noteq> [] \<and> hd s = dash then tl s else s"
  have 1: "dropWhile (\<lambda>c. c = dash) s = ?s1" using s by (rule no_dd_dropWhile)
  have "no_dd ?s1" using s by (simp add: no_dd_tl)
  then have "no_dd (rev ?s1)" by (simp only: no_dd_rev)
  then have 2: "dropWhile (\<lambda>c. c = dash) (rev ?s1) =
      (if rev ?s1 \<noteq> [] \<and> hd (rev ?s1) = dash then tl (rev ?s1) else rev ?s1)"
    by (rule no_dd_dropWhile)
  have 3: "rev (if rev ?s1 \<noteq> [] \<and> hd (rev ?s1) = dash then tl (rev ?s1) else rev ?s1) =
      (if ?s1 \<noteq> [] \<and> last ?s1 = dash then butlast ?s1 else ?s1)"
    by (simp add: hd_rev butlast_rev [symmetric] del: butlast_rev)
  show ?thesis unfolding trim_dashes_def strip_edge_dash_def Let_def 1 2 3 ..
qed

lemma no_dd_hd_tl:
  "no_dd s \<Longrightarrow> s \<noteq> [] \<Longrightarrow> hd s = dash \<Longrightarrow> tl s \<noteq> [] \<Longrightarrow> hd (tl s) \<noteq> dash"
  by (cases s rule: no_dd.cases) auto

lemma no_dd_last_butlast:
  "no_dd s \<Longrightarrow> s \<noteq> [] \<Longrightarrow> last s = dash \<Longrightarrow> butlast s \<noteq> [] \<Longrightarrow> last (butlast s) \<noteq> dash"
  using no_dd_snoc [of "butlast s"] by (metis append_butlast_last_id)

lemma strip_edge_dash_edges:
  assumes "no_dd s"
  shows "\<not> prefix [dash] (strip_edge_dash s) \<and> \<not> suffix [dash] (strip_edge_dash s)"
proof -
  define s1 where "s1 = (if s \<noteq> [] \<and> hd s = dash then tl s else s)"
  define r where "r = (if s1 \<noteq> [] \<and> last s1 = dash then butlast s1 else s1)"
  have r: "strip_edge_dash s = r" by (simp add: strip_edge_dash_def Let_def r_def s1_def)
  have n1: "no_dd s1" using assms by (simp add: no_dd_tl s1_def)
  have h1: "s1 = [] \<or> hd s1 \<noteq> dash" using assms no_dd_hd_tl [of s] by (auto simp: s1_def)
  have l: "r = [] \<or> last r \<noteq> dash"
    using n1 no_dd_last_butlast [of s1] by (auto simp: r_def)
  have h: "r = [] \<or> hd r \<noteq> dash" using h1 by (cases s1) (auto simp: r_def split: if_splits)
  from h have "\<not> prefix [dash] r" by (cases r) auto
  moreover from l have "\<not> suffix [dash] r" by (auto simp: suffix_def)
  ultimately show ?thesis unfolding r by blast
qed

lemma id_char_class: "id_char c \<longleftrightarrow> c \<in> id_class"
proof (cases c)
  case (Char b0 b1 b2 b3 b4 b5 b6 b7)
  show ?thesis unfolding Char id_char_def id_class_def dash_def Let_def
    by (cases b0; cases b1; cases b2; cases b3; cases b4; cases b5; cases b6; cases b7; simp)
qed

lemma squeeze_collapse: "squeeze_dashes xs = collapse_runs xs"
  by (induction xs rule: squeeze_dashes.induct) auto

lemma replace_twice:
  "replaceAll dot dash (replaceAll slash dash s) =
     map (\<lambda>c. if c = slash \<or> c = dot then dash else c) s"
  by (auto simp: replaceAll_def dot_def dash_def slash_def)

text \<open>
  C9 (as amended). \<^verbatim>\<open>normalizeUrlPath\<close> of a string is the string with every backslash
  turned into a slash, behind one more slash when the string does not begin with one:
  the result begins with a slash and holds no backslash, so it is never empty, also for
  the empty string, which gives \<^verbatim>\<open>"/"\<close>. Only an input that is no string (undefined,
  null, or a value of another type) gives the empty string.
\<close>

theorem normalizeUrlPath_cases:
  "normalizeUrlPath (JString s) =
     (if startsWithSlash s then [] else [slash]) @ replaceAll backslash slash s
   \<and> startsWithSlash (normalizeUrlPath (JString s))
   \<and> backslash \<notin> set (normalizeUrlPath (JString s))
   \<and> normalizeUrlPath (JString []) = [slash]
   \<and> normalizeUrlPath JUndefined = []
   \<and> normalizeUrlPath JNull = []
   \<and> normalizeUrlPath (JOther r) = []"
  by (cases s) (auto simp: normalizeUrlPath_def replaceAll_def slash_def backslash_def)

theorem normalizeUrlPath_cases_witness:
  "normalizeUrlPath (JString [CHR ''a'', backslash, CHR ''b'']) = ''/a/b''"
  using normalizeUrlPath_cases [of "[CHR ''a'', backslash, CHR ''b'']"]
  by (simp add: replaceAll_def backslash_def slash_def)

text \<open>
  C9 (as stated) fails at the empty string: the claim gives it the empty-path sentinel,
  the function gives the non-empty path \<^verbatim>\<open>"/"\<close>.
\<close>

theorem normalizeUrlPath_empty_counterexample:
  "normalizeUrlPath (JString []) \<noteq> []"
  by (simp add: normalizeUrlPath_def replaceAll_def)

text \<open>
  C10. Whatever the argument, the identifier holds only characters of \<^verbatim>\<open>[a-z0-9_-]\<close>,
  holds no two dashes in a row, and neither begins nor ends with a dash. It can be
  empty: the source \<^verbatim>\<open>"/"\<close> gives the empty identifier.
\<close>

theorem stableIdFromSrc_shape:
  "set (stableIdFromSrc src) \<subseteq> set ''abcdefghijklmnopqrstuvwxyz0123456789-_''
   \<and> \<not> sublist ''--'' (stableIdFromSrc src)
   \<and> \<not> prefix ''-'' (stableIdFromSrc src)
   \<and> \<not> suffix ''-'' (stableIdFromSrc src)
   \<and> stableIdFromSrc (JString ''/'') = []"
proof -
  have "set (stableIdFromSrc src) \<subseteq> {c. id_char c}"
    unfolding stableIdFromSrc_def Let_def strip_non_id_def
    using strip_edge_dash_set set_squeeze_dashes by fastforce
  then have a: "set (stableIdFromSrc src) \<subseteq> set ''abcdefghijklmnopqrstuvwxyz0123456789-_''"
    using id_char_class unfolding id_class_def by blast
  have n: "no_dd (squeeze_dashes (strip_non_id
      (replaceAll dot dash (replaceAll slash dash (toLowerCase (normalizeUrlPath src))))))"
    by (rule squeeze_no_dd)
  have b: "\<not> sublist [dash, dash] (stableIdFromSrc src)"
    unfolding stableIdFromSrc_def Let_def no_dd_sublist [symmetric]
    using n by (rule strip_edge_dash_no_dd)
  have c: "\<not> prefix [dash] (stableIdFromSrc src) \<and> \<not> suffix [dash] (stableIdFromSrc src)"
    unfolding stableIdFromSrc_def Let_def using n by (rule strip_edge_dash_edges)
  have d: "stableIdFromSrc (JString ''/'') = []"
    by code_simp
  from a b c d show ?thesis by (simp add: dash_def)
qed

text \<open>
  C5. The identifier the code computes is the identifier of the specification's five
  steps, for every argument. Both are functions of \<open>src\<close> alone: they read no state, so
  equal arguments give equal identifiers in any two runs.
\<close>

theorem stableIdFromSrc_refines_spec:
  "stableIdFromSrc src = deriveId_spec src"
proof -
  let ?t = "map (\<lambda>c. if c = slash \<or> c = dot then dash else c) (toLowerCase (normalizeUrlPath src))"
  have f: "filter id_char ?t = filter (\<lambda>c. c \<in> id_class) ?t"
    by (rule filter_cong) (simp_all add: id_char_class)
  have "stableIdFromSrc src = strip_edge_dash (squeeze_dashes (filter id_char ?t))"
    by (simp add: stableIdFromSrc_def strip_non_id_def replace_twice)
  also have "\<dots> = trim_dashes (squeeze_dashes (filter id_char ?t))"
    by (rule strip_edge_dash_trim) (rule squeeze_no_dd)
  also have "\<dots> = deriveId_spec src"
    by (simp only: deriveId_spec_def squeeze_collapse f)
  finally show ?thesis .
qed

section \<open>Properties of the thumbnail dimensions\<close>

lemma bitlen_bounds_rat:
  assumes "0 < a"
  shows "(2::rat) powi (bitlen a - 1) \<le> of_int a" "of_int a < (2::rat) powi bitlen a" "1 \<le> bitlen a"
proof -
  have 0: "bitlen a \<noteq> 0" using assms by (simp add: bitlen_eq_zero_iff)
  then show p: "1 \<le> bitlen a" using bitlen_nonneg [of a] by linarith
  from bitlen_bounds [OF assms]
  have b: "2 ^ nat (bitlen a - 1) \<le> a" "a < 2 ^ nat (bitlen a)" by simp_all
  have "(2::rat) powi (bitlen a - 1) = of_int (2 ^ nat (bitlen a - 1))"
    using p by (simp add: power_int_nonneg_exp)
  also have "\<dots> \<le> of_int a" using b(1) by (simp only: of_int_le_iff)
  finally show "(2::rat) powi (bitlen a - 1) \<le> of_int a" .
  have "of_int a < (of_int (2 ^ nat (bitlen a)) :: rat)" using b(2) by (simp only: of_int_less_iff)
  also have "\<dots> = 2 powi bitlen a" using p by (simp add: power_int_nonneg_exp)
  finally show "of_int a < (2::rat) powi bitlen a" .
qed

lemma ilog2_bounds:
  assumes "0 < x"
  shows "2 powi ilog2 x \<le> x \<and> x < 2 powi (ilog2 x + 1)"
proof -
  obtain a b where q: "quotient_of x = (a, b)" by (cases "quotient_of x")
  have b: "0 < b" using q by (rule quotient_of_denom_pos)
  have x: "x = of_int a / of_int b" using q by (rule quotient_of_div)
  have a: "0 < a" using assms b unfolding x by (simp add: zero_less_divide_iff)
  define la lb where "la = bitlen a" and "lb = bitlen b"
  note la = bitlen_bounds_rat [OF a, folded la_def]
  note lb = bitlen_bounds_rat [OF b, folded lb_def]
  have "x < 2 powi la / 2 powi (lb - 1)"
    unfolding x using a b la lb by (intro frac_less) simp_all
  also have "\<dots> = 2 powi (la - (lb - 1))" by (simp add: power_int_diff)
  finally have up: "x < 2 powi (la - lb + 1)" by (simp add: algebra_simps)
  have "(2::rat) powi (la - 1 - lb) = 2 powi (la - 1) / 2 powi lb" by (simp add: power_int_diff)
  also have "\<dots> \<le> x"
    unfolding x using a b la lb by (intro frac_le) simp_all
  finally have lo: "2 powi (la - lb - 1) \<le> x" by (simp add: algebra_simps)
  show ?thesis
  proof (cases "2 powi (la - lb) \<le> x")
    case True
    then have "ilog2 x = la - lb" by (simp add: ilog2_def q la_def lb_def)
    with True up show ?thesis by simp
  next
    case False
    then have "ilog2 x = la - lb - 1" by (simp add: ilog2_def q la_def lb_def)
    with False lo show ?thesis by simp
  qed
qed

lemma ilog2_eqI:
  assumes "2 powi e \<le> x" "x < 2 powi (e + 1)"
  shows "ilog2 x = e"
proof -
  have "(0::rat) < 2 powi e" by simp
  then have "0 < x" using assms(1) by (rule less_le_trans)
  from ilog2_bounds [OF this] have b: "2 powi ilog2 x \<le> x" "x < 2 powi (ilog2 x + 1)" by simp_all
  have 1: "e < ilog2 x + 1"
  proof (rule ccontr)
    assume "\<not> e < ilog2 x + 1"
    then have "(2::rat) powi (ilog2 x + 1) \<le> 2 powi e" by (intro power_int_increasing) simp_all
    with assms(1) b(2) show False by simp
  qed
  have 2: "ilog2 x < e + 1"
  proof (rule ccontr)
    assume "\<not> ilog2 x < e + 1"
    then have "(2::rat) powi (e + 1) \<le> 2 powi ilog2 x" by (intro power_int_increasing) simp_all
    with assms(2) b(1) show False by simp
  qed
  from 1 2 show ?thesis by simp
qed

lemma round_even_error: "\<bar>of_int (round_even y) - y\<bar> \<le> 1 / 2"
proof -
  have "of_int \<lfloor>y\<rfloor> \<le> y" "y < of_int \<lfloor>y\<rfloor> + 1" by linarith+
  then show ?thesis unfolding round_even_def Let_def by (auto simp: abs_le_iff)
qed

lemma to_double_error:
  assumes "0 < x"
  shows "\<bar>to_double x - x\<bar> \<le> x / 2 ^ 53"
proof -
  define e where "e = ilog2 x"
  define s where "s = e - 52"
  define y where "y = x / 2 powi s"
  have td: "to_double x = of_int (round_even y) * 2 powi s"
    using assms by (simp add: to_double_def e_def s_def y_def Let_def)
  have xy: "x = y * 2 powi s" by (simp add: y_def)
  have "\<bar>to_double x - x\<bar> = \<bar>of_int (round_even y) - y\<bar> * 2 powi s"
    unfolding td by (subst xy) (simp add: abs_mult left_diff_distrib [symmetric] del: of_int_diff)
  also have "\<dots> \<le> 1 / 2 * 2 powi s"
    by (intro mult_right_mono round_even_error) simp
  also have "\<dots> = 2 powi e / 2 ^ 53"
    unfolding s_def by (simp add: power_int_diff)
  also have "\<dots> \<le> x / 2 ^ 53"
    using ilog2_bounds [OF assms] by (simp add: e_def divide_right_mono)
  finally show ?thesis .
qed


lemma to_double_eval:
  assumes "2 powi e \<le> x" "x < 2 powi (e + 1)"
  shows "to_double x = of_int (round_even (x / 2 powi (e - 52))) * 2 powi (e - 52)"
proof -
  have "(0::rat) < 2 powi e" by simp
  then have "0 < x" using assms(1) by (rule less_le_trans)
  then show ?thesis using ilog2_eqI [OF assms] by (simp add: to_double_def Let_def)
qed


lemma round_even_eqI:
  assumes "\<bar>y - of_int m\<bar> < 1 / 2"
  shows "round_even y = m"
proof -
  have "\<bar>of_int (round_even y) - y\<bar> \<le> 1 / 2" by (rule round_even_error)
  with assms have "\<bar>(of_int (round_even y) :: rat) - of_int m\<bar> < 1" by linarith
  then have "\<bar>round_even y - m\<bar> < 1"
    by (metis of_int_1 of_int_abs of_int_diff of_int_less_iff)
  then show ?thesis by linarith
qed

lemma to_double_eqI:
  assumes "2 powi e \<le> x" "x < 2 powi (e + 1)" "\<bar>x / 2 powi (e - 52) - of_int m\<bar> < 1 / 2"
  shows "to_double x = of_int m * 2 powi (e - 52)"
  using to_double_eval [OF assms(1,2)] round_even_eqI [OF assms(3)] by simp

lemma Math_round_eqI:
  assumes "of_int k \<le> x + 1 / 2" "x + 1 / 2 < of_int k + 1"
  shows "Math_round x = k"
  unfolding Math_round_def using assms by (intro floor_unique) simp_all

lemma to_double_pos:
  assumes "0 < x"
  shows "0 < to_double x"
proof -
  have "x / 2 ^ 53 < x" using assms by (simp add: field_simps)
  with to_double_error [OF assms] show ?thesis by linarith
qed

lemma double_product_close:
  fixes w h :: nat
  assumes w: "0 < w" and h: "0 < h" "h < 2 ^ 32"
  defines "tw \<equiv> thumbWidth_of w"
  defines "X \<equiv> (of_nat h * of_nat tw / of_nat w :: rat)"
  defines "p \<equiv> fmul (fdiv (of_nat h) (of_nat w)) (of_nat tw)"
  shows "\<bar>p - X\<bar> < 1 / (2 * of_nat w)"
proof -
  have tw: "0 < tw" "tw \<le> 900" using w by (simp_all add: tw_def thumbWidth_of_def THUMB_WIDTH_def)
  define a :: rat where "a = of_nat h / of_nat w"
  define q where "q = to_double a"
  define r where "r = q * of_nat tw"
  have a: "0 < a" using w h by (simp add: a_def)
  have X: "X = a * of_nat tw" by (simp add: X_def a_def)
  have Xpos: "0 < X" using a tw by (simp add: X)
  have q: "\<bar>q - a\<bar> \<le> a / 2 ^ 53" "0 < q"
    using to_double_error [OF a] to_double_pos [OF a] by (simp_all add: q_def)
  have "\<bar>r - X\<bar> = \<bar>q - a\<bar> * of_nat tw"
    by (simp add: r_def X left_diff_distrib [symmetric] abs_mult)
  also have "\<dots> \<le> a / 2 ^ 53 * of_nat tw" using q(1) by (intro mult_right_mono) simp_all
  finally have rX: "\<bar>r - X\<bar> \<le> X / 2 ^ 53" by (simp add: X)
  have r: "0 < r" using q(2) tw by (simp add: r_def)
  have p: "p = to_double r" by (simp add: p_def fmul_def fdiv_def r_def q_def a_def)
  have pr: "\<bar>p - r\<bar> \<le> r / 2 ^ 53" unfolding p by (rule to_double_error [OF r])
  have "X / 2 ^ 53 \<le> X" using Xpos by (simp add: field_simps)
  with rX have "r \<le> 2 * X" by linarith
  then have "r / 2 ^ 53 \<le> 2 * X / 2 ^ 53" by (simp add: divide_right_mono)
  with pr rX have pX: "\<bar>p - X\<bar> \<le> 3 * X / 2 ^ 53" by linarith
  have "h * tw < 2 ^ 32 * 900" using h(2) tw
    by (meson mult_less_le_imp_less zero_less_numeral tw(1) le0 less_le_trans mult_strict_mono' zero_less_power) 
  then have "(of_nat (h * tw) :: rat) < of_nat (2 ^ 32 * 900)" by (simp only: of_nat_less_iff)
  then have ht: "(of_nat h * of_nat tw :: rat) < 2 ^ 32 * 900" by simp
  have "3 * X / 2 ^ 53 * (2 * of_nat w) = 6 * (of_nat h * of_nat tw) / 2 ^ 53"
    using w by (simp add: X_def)
  also have "\<dots> < 1" using ht by simp
  finally have "3 * X / 2 ^ 53 < 1 / (2 * of_nat w)" using w by (simp add: field_simps)
  with pX show ?thesis by linarith
qed

lemma thumbHeight_vs_exact:
  fixes w h :: nat
  assumes w: "0 < w" and h: "0 < h" "h < 2 ^ 32"
  defines "X \<equiv> (of_nat h * of_nat (min 900 w) / of_nat w :: rat)"
  shows "frac X \<noteq> 1 / 2 \<Longrightarrow> thumbHeight_of w h = exact_thumbHeight w h"
    and "thumbHeight_of w h = exact_thumbHeight w h \<or> thumbHeight_of w h = exact_thumbHeight w h - 1"
proof -
  define tw where "tw = thumbWidth_of w"
  have tw': "thumbWidth_of w = min 900 w" by (simp add: thumbWidth_of_def THUMB_WIDTH_def)
  define p where "p = fmul (fdiv (of_nat h) (of_nat w)) (of_nat tw)"
  define M :: rat where "M = 2 * of_nat w"
  have M: "2 \<le> M" using w by (simp add: M_def Suc_le_eq flip: of_nat_Suc)
  have close: "\<bar>p - X\<bar> < 1 / M"
    using double_product_close [OF w h] by (simp add: p_def X_def tw_def tw' M_def)
  define K where "K = round X"
  have K: "of_int K \<le> X + 1 / 2" "X + 1 / 2 < of_int K + 1"
    unfolding K_def round_def by linarith+
  define j :: int where "j = 2 * int h * int tw + int w - 2 * int w * K"
  have j: "of_int j = (X + 1 / 2 - of_int K) * M"
    using w by (simp add: j_def X_def M_def tw_def tw' field_simps)
  have "0 \<le> (of_int j :: rat)" unfolding j using K(1) M by (intro mult_nonneg_nonneg) simp_all
  then have j0: "0 \<le> j" by simp
  have "(of_int j :: rat) < 1 * M" unfolding j using K(2) M by (intro mult_strict_right_mono) simp_all
  then have "(of_int j :: rat) < of_int (2 * int w)" by (simp add: M_def)
  then have "j < 2 * int w" by (simp only: of_int_less_iff)
  then have "j + 1 \<le> 2 * int w" by simp
  then have "(of_int (j + 1) :: rat) \<le> of_int (2 * int w)" by (simp only: of_int_le_iff)
  then have jM: "(of_int j :: rat) + 1 \<le> M" by (simp add: M_def)
  have t: "X + 1 / 2 - of_int K = of_int j / M" using M by (simp add: j)
  define F where "F = \<lfloor>p + 1 / 2\<rfloor>"
  have th: "thumbHeight_of w h = nat (max 1 F)"
    by (simp add: thumbHeight_of_def Math_round_def p_def tw_def F_def)
  have ex: "exact_thumbHeight w h = nat (max 1 K)"
    by (simp add: exact_thumbHeight_def K_def X_def)
  have Minv: "1 / M \<le> 1 / 2" using M by (simp add: field_simps)
  { assume "j \<noteq> 0"
    with j0 have "1 \<le> j" by simp
    then have "(1::rat) \<le> of_int j" by simp
    then have lo: "1 / M \<le> of_int j / M" using M by (simp add: divide_right_mono)
    have hi: "of_int j / M \<le> 1 - 1 / M" using jM M by (simp add: field_simps)
    have "F = K"
      unfolding F_def using close lo hi t by (intro floor_unique) linarith+
    then have "thumbHeight_of w h = exact_thumbHeight w h" by (simp add: th ex) }
  note nontie = this
  { assume "j = 0"
    then have "X + 1 / 2 = of_int K" using t by simp
    then have "of_int (K - 1) \<le> p + 1 / 2" "p + 1 / 2 < of_int K + 1"
      using close Minv by simp_all
    then have "K - 1 \<le> F" "F < K + 1"
      unfolding F_def by (simp_all only: le_floor_iff floor_less_iff)
    then have "F = K - 1 \<or> F = K" by linarith
    then have "thumbHeight_of w h = exact_thumbHeight w h \<or> thumbHeight_of w h = exact_thumbHeight w h - 1"
      unfolding th ex by (auto simp: max_def) }
  note tie = this
  show "thumbHeight_of w h = exact_thumbHeight w h \<or> thumbHeight_of w h = exact_thumbHeight w h - 1"
    using tie nontie by blast
  show "thumbHeight_of w h = exact_thumbHeight w h" if "frac X \<noteq> 1 / 2"
  proof (rule nontie, rule notI)
    assume "j = 0"
    then have "X = of_int (K - 1) + 1 / 2" using t by simp
    then have "frac X = 1 / 2" by (simp only: frac_unique_iff) simp
    with that show False by simp
  qed
qed

lemma frac_of_nat_rat: "frac (of_nat n :: rat) = 0"
  by (metis frac_of_int of_int_of_nat_eq)

lemma thumbHeight_no_downscale:
  fixes w h :: nat
  assumes "0 < w" "0 < h" "h < 2 ^ 32" "w \<le> 900"
  shows "thumbHeight_of w h = h"
proof -
  have X: "(of_nat h * of_nat (min 900 w) / of_nat w :: rat) = of_nat h"
    using assms by (simp add: min_def)
  have "frac (of_nat h * of_nat (min 900 w) / of_nat w :: rat) \<noteq> 1 / 2"
    unfolding X by (simp add: frac_of_nat_rat)
  then have "thumbHeight_of w h = exact_thumbHeight w h"
    using assms by (intro thumbHeight_vs_exact(1))
  also have "\<dots> = h" using assms(2) unfolding exact_thumbHeight_def X by simp
  finally show ?thesis .
qed

lemma thumbHeight_960_520: "thumbHeight_of 960 520 = 487"
proof -
  have q: "fdiv 520 960 = 4878899596318037 / 2 ^ 53"
    unfolding fdiv_def
    by (subst to_double_eqI [where e = "-1" and m = 4878899596318037]) simp_all
  have p: "fmul (4878899596318037 / 2 ^ 53) 900 = 8576190696652799 / 2 ^ 44"
    unfolding fmul_def
    by (subst to_double_eqI [where e = "8" and m = 8576190696652799]) simp_all
  have "Math_round (fmul (fdiv 520 960) 900) = 487"
    unfolding q p by (rule Math_round_eqI) simp_all
  then show ?thesis
    by (simp add: thumbHeight_of_def thumbWidth_of_def THUMB_WIDTH_def)
qed

lemma thumbHeight_920_943: "thumbHeight_of 920 943 = 922"
proof -
  have q: "fdiv 943 920 = 4616189618054758 / 2 ^ 52"
    unfolding fdiv_def
    by (subst to_double_eqI [where e = "0" and m = 4616189618054758]) simp_all
  have p: "fmul (4616189618054758 / 2 ^ 52) 900 = 8114395812986879 / 2 ^ 43"
    unfolding fmul_def
    by (subst to_double_eqI [where e = "9" and m = 8114395812986879]) simp_all
  have "Math_round (fmul (fdiv 943 920) 900) = 922"
    unfolding q p by (rule Math_round_eqI) simp_all
  then show ?thesis
    by (simp add: thumbHeight_of_def thumbWidth_of_def THUMB_WIDTH_def)
qed

lemma round_eqI: "of_int k \<le> x + 1 / 2 \<Longrightarrow> x + 1 / 2 < of_int k + 1 \<Longrightarrow> round (x::rat) = k"
  unfolding round_def by (intro floor_unique) simp_all

lemma exact_960_520: "exact_thumbHeight 960 520 = 488"
proof -
  have "round (520 * 900 / 960 :: rat) = 488" by (rule round_eqI) simp_all
  then show ?thesis by (simp add: exact_thumbHeight_def)
qed

lemma exact_920_943: "exact_thumbHeight 920 943 = 923"
proof -
  have "round (943 * 900 / 920 :: rat) = 923" by (rule round_eqI) simp_all
  then show ?thesis by (simp add: exact_thumbHeight_def)
qed

lemma frac_eqI: "of_int k \<le> x \<Longrightarrow> x < of_int k + 1 \<Longrightarrow> frac (x::rat) = x - of_int k"
  unfolding frac_def by (simp add: floor_unique)

text \<open>
  C2 (as stated) fails for a source of 960 by 520 pixels: the exact quotient
  \<open>520 \<sqdot> 900 / 960\<close> is 487.5, which rounds to 488, while the code's doubles give
  \<open>(520 / 960) * 900 = 487.49999999999994\<close>, which \<^verbatim>\<open>Math.round\<close> takes to 487.
\<close>

theorem thumbHeight_formula_counterexample:
  "thumbWidth_of 960 = 900 \<and> thumbHeight_of 960 520 = 487
   \<and> nat (max 1 (round (520 * 900 / 960 :: rat))) = 488
   \<and> thumbHeight_of 960 520 \<noteq> exact_thumbHeight 960 520"
proof -
  have "round (520 * 900 / 960 :: rat) = 488" by (rule round_eqI) simp_all
  then show ?thesis
    using thumbHeight_960_520 exact_960_520 by (simp add: thumbWidth_of_def THUMB_WIDTH_def)
qed

text \<open>
  C2 (as amended). For a source of \<open>w\<close> by \<open>h\<close> pixels, both positive and below
  \<open>2\<^sup>3\<^sup>2\<close>, the thumbnail width is \<open>min(900, w)\<close>. The thumbnail height is
  \<open>max(1, round(h \<sqdot> thumbWidth / w))\<close> whenever \<open>h \<sqdot> thumbWidth / w\<close> does not lie
  exactly half-way between two integers; when it does, the height is that value or one
  less, as the double product falls. A source of 2000 by 1000 gives exactly 900 by 450.
\<close>

theorem thumbnail_dimension_law:
  fixes w h :: nat
  assumes "0 < w" "0 < h" "w < 2 ^ 32" "h < 2 ^ 32"
  shows "thumbWidth_of w = min 900 w
    \<and> (frac (of_nat h * of_nat (min 900 w) / of_nat w :: rat) \<noteq> 1 / 2
         \<longrightarrow> thumbHeight_of w h = exact_thumbHeight w h)
    \<and> (thumbHeight_of w h = exact_thumbHeight w h
         \<or> thumbHeight_of w h = exact_thumbHeight w h - 1)
    \<and> thumbWidth_of 2000 = 900 \<and> thumbHeight_of 2000 1000 = 450"
proof -
  have a: "thumbWidth_of w = min 900 w" "thumbWidth_of 2000 = 900"
    by (simp_all add: thumbWidth_of_def THUMB_WIDTH_def)
  have "frac (of_nat 1000 * of_nat (min 900 2000) / of_nat 2000 :: rat) = frac (of_nat 450)"
    by simp
  then have f: "frac (of_nat 1000 * of_nat (min 900 2000) / of_nat 2000 :: rat) \<noteq> 1 / 2"
    by (simp only: frac_of_nat_rat)
  have "thumbHeight_of 2000 1000 = exact_thumbHeight 2000 1000"
    by (rule thumbHeight_vs_exact(1) [OF _ _ _ f]) simp_all
  also have "\<dots> = 450" by (simp add: exact_thumbHeight_def)
  finally have b: "thumbHeight_of 2000 1000 = 450" .
  from a b thumbHeight_vs_exact [OF assms(1,2,4)] show ?thesis by blast
qed

theorem thumbnail_dimension_law_witness:
  "thumbWidth_of 1920 = 900 \<and> thumbHeight_of 1920 1080 = 506"
proof -
  have f: "frac (of_nat 1080 * of_nat (min 900 1920) / of_nat 1920 :: rat) = 1 / 4"
    by (subst frac_eqI [where k = 506]) simp_all
  have r: "round (1080 * 900 / 1920 :: rat) = 506" by (rule round_eqI) simp_all
  have "thumbHeight_of 1920 1080 = exact_thumbHeight 1920 1080"
    using thumbnail_dimension_law [of 1920 1080] f by simp
  then show ?thesis
    using r by (simp add: exact_thumbHeight_def thumbWidth_of_def THUMB_WIDTH_def)
qed

text \<open>
  C8 (as stated) fails for a source of 920 by 943 pixels: \<open>900 \<sqdot> 943 / 920\<close> is 922.5,
  which rounds to 923, while the code's doubles give \<open>(943 / 920) * 900 =
  922.4999999999999\<close> and a thumbnail height of 922.
\<close>

theorem never_upscale_height_counterexample:
  "thumbWidth_of 920 = 900 \<and> thumbHeight_of 920 943 = 922
   \<and> nat (max 1 (round (900 * 943 / 920 :: rat))) = 923
   \<and> thumbHeight_of 920 943 \<noteq> exact_thumbHeight 920 943"
proof -
  have "round (900 * 943 / 920 :: rat) = 923" by (rule round_eqI) simp_all
  then show ?thesis
    using thumbHeight_920_943 exact_920_943 by (simp add: thumbWidth_of_def THUMB_WIDTH_def)
qed

lemma thumb_never_upscale:
  fixes w h :: nat
  assumes "0 < w" "0 < h" "w < 2 ^ 32" "h < 2 ^ 32"
  shows "thumbWidth_of w \<le> w \<and> 1 \<le> thumbHeight_of w h
    \<and> (w \<le> 900 \<longrightarrow> thumbWidth_of w = w \<and> thumbHeight_of w h = h)
    \<and> (frac (of_nat (thumbWidth_of w) * of_nat h / of_nat w :: rat) \<noteq> 1 / 2
         \<longrightarrow> thumbHeight_of w h = exact_thumbHeight w h)
    \<and> (thumbHeight_of w h = exact_thumbHeight w h
         \<or> thumbHeight_of w h = exact_thumbHeight w h - 1)
    \<and> thumbWidth_of 400 = 400 \<and> thumbHeight_of 400 300 = 300"
proof -
  have tw: "thumbWidth_of w = min 900 w" by (simp add: thumbWidth_of_def THUMB_WIDTH_def)
  have a: "thumbWidth_of w \<le> w" "w \<le> 900 \<longrightarrow> thumbWidth_of w = w" "thumbWidth_of 400 = 400"
    by (simp_all add: thumbWidth_of_def THUMB_WIDTH_def)
  have b: "1 \<le> thumbHeight_of w h" by (simp add: thumbHeight_of_def)
  have c: "w \<le> 900 \<longrightarrow> thumbHeight_of w h = h"
    using thumbHeight_no_downscale [OF assms(1,2,4)] by blast
  have d: "thumbHeight_of 400 300 = 300" by (rule thumbHeight_no_downscale) simp_all
  have e: "(of_nat (thumbWidth_of w) * of_nat h / of_nat w :: rat)
      = of_nat h * of_nat (min 900 w) / of_nat w" by (simp add: tw)
  from a b c d thumbHeight_vs_exact [OF assms(1,2,4)] show ?thesis unfolding e by blast
qed

section \<open>Properties of the path functions\<close>

lemma split_slash_not_Nil: "split_slash s \<noteq> []"
  by (induction s) (auto split: list.splits)

lemma split_slash_no_slash: "slash \<notin> set s \<Longrightarrow> split_slash s = [s]"
  by (induction s) (auto split: list.splits)

lemma split_slash_append:
  "split_slash (a @ slash # b) = split_slash a @ split_slash b"
proof (induction a)
  case Nil
  show ?case by simp
next
  case (Cons c a)
  obtain x xs where x: "split_slash a = x # xs"
    using split_slash_not_Nil [of a] by (cases "split_slash a") auto
  show ?case using Cons by (auto simp: x split: list.splits)
qed

lemma join_slash_snoc: "xs \<noteq> [] \<Longrightarrow> join_slash (xs @ [y]) = join_slash xs @ slash # y"
  by (induction xs rule: join_slash.induct) auto

lemma join_slash_Cons: "ys \<noteq> [] \<Longrightarrow> join_slash (x # ys) = x @ slash # join_slash ys"
  by (cases ys) auto

lemma suffix_join_slash_snoc: "suffix y (join_slash (xs @ [y]))"
  by (cases "xs = []") (auto simp: join_slash_snoc suffix_def)

lemma push_plain: "plain_segment seg \<Longrightarrow> push_segment allow res seg = res @ [seg]"
  by (simp add: push_segment_def plain_segment_def)

lemma foldl_push_plain:
  "\<forall>seg \<in> set segs. plain_segment seg \<Longrightarrow> foldl (push_segment allow) res segs = res @ segs"
  by (induction segs arbitrary: res) (auto simp: push_plain)

lemma split_join_plain:
  "segs \<noteq> [] \<Longrightarrow> \<forall>seg \<in> set segs. slash \<notin> set seg \<Longrightarrow> split_slash (join_slash segs) = segs"
proof (induction segs rule: join_slash.induct)
  case (3 x y zs)
  then show ?case using split_slash_append [of x "join_slash (y # zs)"]
    by (simp add: split_slash_no_slash)
qed (auto simp: split_slash_no_slash)

lemma join_slash_plain_facts:
  assumes "segs \<noteq> []" "\<forall>seg \<in> set segs. plain_segment seg"
  shows "join_slash segs \<noteq> []" "hd (join_slash segs) \<noteq> slash" "last (join_slash segs) \<noteq> slash"
  using assms
proof (induction segs rule: join_slash.induct)
  case (3 x y zs)
  { case 1 show ?case by simp }
  { case 2 then show ?case by (cases x) (auto simp: plain_segment_def) }
  { case 3 then show ?case using "3.IH" by (auto simp: plain_segment_def) }
qed (auto simp: plain_segment_def intro: hd_in_set last_in_set dest: hd_in_set last_in_set)

lemma join_slash_append:
  "xs \<noteq> [] \<Longrightarrow> ys \<noteq> [] \<Longrightarrow> join_slash (xs @ ys) = join_slash xs @ slash # join_slash ys"
  by (induction xs rule: join_slash.induct) (auto simp: join_slash_Cons)

lemma last_component_no_slash: "slash \<notin> set (last_component p)"
  unfolding last_component_def using set_takeWhileD by fastforce

lemma last_component_length: "length (last_component p) \<le> length p"
proof -
  have "length (last_component p) \<le> length (dropWhile (\<lambda>c. c = slash) (rev p))"
    unfolding last_component_def by (simp add: length_takeWhile_le)
  also have "\<dots> \<le> length (rev p)" by (rule length_dropWhile_le)
  finally show ?thesis by simp
qed

lemma last_component_tail:
  assumes "cmpt \<noteq> []" "slash \<notin> set cmpt"
  shows "last_component (D @ slash # cmpt) = cmpt"
proof -
  obtain c cs where r: "rev cmpt = c # cs" using assms(1) by (cases "rev cmpt") auto
  have c: "c \<noteq> slash" using assms(2) r by (metis list.set_intros(1) set_rev)
  have ns: "\<forall>x \<in> set (rev cmpt). x \<noteq> slash" using assms(2) by auto
  have "rev (D @ slash # cmpt) = rev cmpt @ slash # rev D" by simp
  moreover have "dropWhile (\<lambda>c. c = slash) (rev cmpt @ slash # rev D) = rev cmpt @ slash # rev D"
    using c by (simp add: r)
  moreover have "takeWhile (\<lambda>c. c \<noteq> slash) (rev cmpt @ slash # rev D) = rev cmpt"
    using ns by (simp add: takeWhile_tail)
  ultimately show ?thesis by (simp add: last_component_def)
qed

lemma posix_dirname_tail:
  assumes "D \<noteq> []" "hd D \<noteq> slash" "cmpt \<noteq> []" "slash \<notin> set cmpt"
  shows "posix_dirname (D @ slash # cmpt) = D"
proof -
  obtain d ds where D: "D = d # ds" using assms(1) by (cases D) auto
  obtain c cs where r: "rev cmpt = c # cs" using assms(3) by (cases "rev cmpt") auto
  have c: "c \<noteq> slash" using assms(4) r by (metis list.set_intros(1) set_rev)
  have ns: "\<forall>x \<in> set (rev cmpt). x \<noteq> slash" using assms(4) by auto
  have t: "rev (tl (D @ slash # cmpt)) = rev cmpt @ slash # rev ds" by (simp add: D)
  have 1: "dropWhile (\<lambda>c. c = slash) (rev cmpt @ slash # rev ds) = rev cmpt @ slash # rev ds"
    using c by (simp add: r)
  have 2: "dropWhile (\<lambda>c. c \<noteq> slash) (rev cmpt @ slash # rev ds) = slash # rev ds"
    using ns by (subst dropWhile_append2) auto
  show ?thesis
    unfolding posix_dirname_def Let_def t 1 2 using assms(2) by (simp add: D)
qed

lemma extname_suffix:
  "posix_extname p = [] \<or> suffix (posix_extname p) (last_component p)"
proof (cases "dot \<in> set (last_component p)")
  case False
  then show ?thesis by (simp add: posix_extname_def Let_def)
next
  case True
  let ?c = "last_component p"
  from True have "dot \<in> set (rev ?c)" by simp
  then obtain ys where dw: "dropWhile (\<lambda>c. c \<noteq> dot) (rev ?c) = dot # ys"
    by (metis (mono_tags, lifting) dropWhile_eq_Nil_conv hd_dropWhile list.exhaust_sel)
  have "rev ?c = takeWhile (\<lambda>c. c \<noteq> dot) (rev ?c) @ dot # ys"
    using takeWhile_dropWhile_id [of "\<lambda>c. c \<noteq> dot" "rev ?c"] by (simp add: dw)
  then have "rev (rev ?c) = rev (takeWhile (\<lambda>c. c \<noteq> dot) (rev ?c) @ dot # ys)"
    by (rule arg_cong)
  then have "?c = rev ys @ dot # rev (takeWhile (\<lambda>c. c \<noteq> dot) (rev ?c))"
    by simp
  then have "suffix (dot # rev (takeWhile (\<lambda>c. c \<noteq> dot) (rev ?c))) ?c"
    by (metis suffixI)
  then show ?thesis by (auto simp: posix_extname_def Let_def)
qed

lemma basename_extname_no_slash: "slash \<notin> set (posix_basename p (posix_extname p))"
proof -
  have n: "slash \<notin> set (last_component p)" by (rule last_component_no_slash)
  then have t: "slash \<notin> set (take k (last_component p))" for k by (meson in_set_takeD)
  from extname_suffix [of p] show ?thesis
    using n t by (auto simp: posix_basename_def Let_def)
qed

lemma posix_extname_tail:
  assumes lc: "last_component p = name @ dot # ext"
    and "name \<noteq> []" "name @ dot # ext \<noteq> ''..''" "dot \<notin> set ext"
  shows "posix_extname p = dot # ext"
proof -
  have ns: "\<forall>x \<in> set (rev ext). x \<noteq> dot" using assms(4) by auto
  have r: "rev (name @ dot # ext) = rev ext @ dot # rev name" by simp
  have 1: "takeWhile (\<lambda>c. c \<noteq> dot) (rev ext @ dot # rev name) = rev ext"
    using ns by (simp add: takeWhile_tail)
  have 2: "dropWhile (\<lambda>c. c \<noteq> dot) (rev ext @ dot # rev name) = dot # rev name"
    using ns by (subst dropWhile_append2) auto
  show ?thesis
    unfolding posix_extname_def Let_def lc r 1 2 using assms(2,3) by simp
qed

lemma posix_basename_tail:
  assumes lc: "last_component p = name @ sfx"
    and "name \<noteq> []" "sfx \<noteq> []"
  shows "posix_basename p sfx = name"
proof -
  have len: "length sfx \<le> length p"
    using last_component_length [of p] by (simp add: lc)
  have ne: "sfx \<noteq> p"
  proof
    assume "sfx = p"
    then have "length (name @ sfx) \<le> length sfx" using last_component_length [of p] lc by simp
    then show False using assms(2) by simp
  qed
  have s: "suffix sfx (name @ sfx)" by (simp add: suffix_def)
  show ?thesis
    unfolding posix_basename_def Let_def lc using assms(2,3) len ne s by simp
qed

lemma replaceAll_id: "a \<notin> set s \<Longrightarrow> replaceAll a b s = s"
  by (induction s) (auto simp: replaceAll_def)

lemma normalize_plain:
  assumes "segs \<noteq> []" "\<forall>seg \<in> set segs. plain_segment seg"
  shows "posix_normalize (join_slash segs) = join_slash segs"
proof -
  note f = join_slash_plain_facts [OF assms]
  have ns: "\<forall>seg \<in> set segs. slash \<notin> set seg" using assms(2) by (simp add: plain_segment_def)
  have "normalizeString (join_slash segs) True = join_slash segs"
    unfolding normalizeString_def
    by (simp add: split_join_plain [OF assms(1) ns] foldl_push_plain [OF assms(2)])
  then show ?thesis using f by (simp add: posix_normalize_def Let_def)
qed

lemma normalize_keeps_last:
  assumes "plain_segment l" "hd J \<noteq> slash" "J \<noteq> []"
  shows "suffix l (posix_normalize (J @ slash # l))"
proof -
  have l: "l \<noteq> []" "slash \<notin> set l" using assms(1) by (simp_all add: plain_segment_def)
  have "split_slash (J @ slash # l) = split_slash J @ [l]"
    by (simp add: split_slash_append split_slash_no_slash l)
  then have n: "normalizeString (J @ slash # l) True
      = join_slash (foldl (push_segment True) [] (split_slash J) @ [l])"
    by (simp add: normalizeString_def push_plain [OF assms(1)])
  have s: "suffix l (normalizeString (J @ slash # l) True)"
    unfolding n by (rule suffix_join_slash_snoc)
  then have ne: "normalizeString (J @ slash # l) True \<noteq> []" using l(1) by auto
  have h: "hd (J @ slash # l) \<noteq> slash" using assms(2,3) by simp
  have t: "last (J @ slash # l) \<noteq> slash" using l by (metis last.simps last_appendR last_in_set list.distinct(1))
  show ?thesis
    unfolding posix_normalize_def Let_def using s ne h t by simp
qed

lemma toThumbUrl_jpg: "suffix ''.jpg'' (toThumbUrl srcUrl)"
proof -
  define p where "p = stripLeadingSlash (normalizeUrlPath srcUrl)"
  define base where "base = posix_basename p (posix_extname p)"
  define l where "l = base @ ''.jpg''"
  define xs where "xs = filter (\<lambda>arg. arg \<noteq> []) [''gallery'', ''thumbs'', posix_dirname p]"
  have base: "slash \<notin> set base" unfolding base_def by (rule basename_extname_no_slash)
  have l: "plain_segment l"
    using base by (cases base rule: rev_cases) (auto simp: plain_segment_def l_def slash_def)
  have xs: "xs = ''gallery'' # tl xs" "tl xs \<noteq> []" by (simp_all add: xs_def)
  define J where "J = join_slash xs"
  have J: "J \<noteq> []" "hd J \<noteq> slash"
    unfolding J_def by (subst xs(1), simp add: join_slash_Cons [OF xs(2)] slash_def)+
  have xsne: "xs \<noteq> []" using xs(1) by auto
  have f: "filter (\<lambda>arg. arg \<noteq> []) [''gallery'', ''thumbs'', posix_dirname p, l] = xs @ [l]"
    using l by (simp add: xs_def plain_segment_def)
  have j: "join_slash (xs @ [l]) = J @ slash # l"
    unfolding J_def using xsne by (rule join_slash_snoc)
  have "posix_join [''gallery'', ''thumbs'', posix_dirname p, l] = posix_normalize (J @ slash # l)"
    unfolding posix_join_def Let_def f j by simp
  then have "suffix l (posix_join [''gallery'', ''thumbs'', posix_dirname p, l])"
    using normalize_keeps_last [OF l J(2,1)] by simp
  then obtain pre where pre: "posix_join [''gallery'', ''thumbs'', posix_dirname p, l] = pre @ l"
    by (auto simp: suffix_def)
  have "toThumbUrl srcUrl = replaceAll backslash slash (slash # pre @ base @ ''.jpg'')"
    by (simp add: toThumbUrl_def Let_def p_def [symmetric] base_def [symmetric] l_def [symmetric] pre)
  then show ?thesis
    by (simp add: replaceAll_def backslash_def suffix_def)
qed

lemma set_join_slash: "set (join_slash xs) \<subseteq> insert slash (\<Union> (set ` set xs))"
  by (induction xs rule: join_slash.induct) auto

lemma toThumbUrl_form:
  assumes dirs: "dirs \<noteq> []" "\<forall>d \<in> set dirs. plain_segment d \<and> backslash \<notin> set d"
    and name: "name \<noteq> []" "slash \<notin> set name" "backslash \<notin> set name"
    and ext: "name @ dot # ext \<noteq> ''..''" "slash \<notin> set ext" "backslash \<notin> set ext"
      "dot \<notin> set ext"
  shows "toThumbUrl (JString (slash # join_slash dirs @ slash # name @ dot # ext))
       = ''/gallery/thumbs/'' @ join_slash dirs @ slash # name @ ''.jpg''"
proof -
  define D where "D = join_slash dirs"
  define c where "c = name @ dot # ext"
  define l where "l = name @ ''.jpg''"
  have pl: "\<forall>d \<in> set dirs. plain_segment d" using dirs(2) by blast
  note Df = join_slash_plain_facts [OF dirs(1) pl, folded D_def]
  have bs: "backslash \<noteq> slash" "backslash \<noteq> dot" by (simp_all add: backslash_def slash_def dot_def)
  have Db: "backslash \<notin> set D"
    unfolding D_def using set_join_slash [of dirs] dirs(2) bs by auto
  have c: "c \<noteq> []" "slash \<notin> set c"
    using name ext by (auto simp: c_def slash_def dot_def)
  have cb: "backslash \<notin> set c" using name ext bs by (auto simp: c_def)
  have "normalizeUrlPath (JString (slash # D @ slash # c)) = slash # D @ slash # c"
    unfolding normalizeUrlPath_def using Db cb bs by (simp add: replaceAll_id)
  then have p: "stripLeadingSlash (normalizeUrlPath (JString (slash # D @ slash # c))) = D @ slash # c"
    by (simp add: stripLeadingSlash_def)
  have dir: "posix_dirname (D @ slash # c) = D"
    using Df(1,2) c by (rule posix_dirname_tail)
  have lc: "last_component (D @ slash # c) = name @ dot # ext"
    using last_component_tail [OF c] by (simp add: c_def)
  have e: "posix_extname (D @ slash # c) = dot # ext"
    using lc name(1) ext(1,4) by (rule posix_extname_tail)
  have b: "posix_basename (D @ slash # c) (dot # ext) = name"
    using lc name(1) by (rule posix_basename_tail) simp
  have lp: "plain_segment l"
    using name by (cases name rule: rev_cases) (auto simp: plain_segment_def l_def slash_def)
  define segs where "segs = [''gallery'', ''thumbs''] @ dirs @ [l]"
  have segs: "segs \<noteq> []" "\<forall>seg \<in> set segs. plain_segment seg"
    using pl lp by (auto simp: segs_def plain_segment_def slash_def)
  have dl: "join_slash (dirs @ [l]) = D @ slash # l"
    unfolding D_def using dirs(1) by (rule join_slash_snoc)
  have js: "join_slash segs = ''gallery/thumbs/'' @ D @ slash # l"
    unfolding segs_def using dirs(1) by (subst join_slash_append) (simp_all add: dl slash_def)
  have l: "l \<noteq> []" using lp by (simp add: plain_segment_def)
  have "join_slash (filter (\<lambda>arg. arg \<noteq> []) [''gallery'', ''thumbs'', D, l]) = join_slash segs"
    using Df(1) l by (simp add: js slash_def)
  moreover have "join_slash segs \<noteq> []" by (simp add: js)
  ultimately have j: "posix_join [''gallery'', ''thumbs'', D, l] = join_slash segs"
    by (simp add: posix_join_def Let_def normalize_plain [OF segs])
  have lb: "backslash \<notin> set l" using name(3) by (auto simp: l_def backslash_def)
  have "backslash \<notin> set (slash # join_slash segs)"
    unfolding js using Db lb bs by (auto simp: backslash_def)
  then have "replaceAll backslash slash (slash # join_slash segs) = slash # join_slash segs"
    by (rule replaceAll_id)
  then have "toThumbUrl (JString (slash # D @ slash # c)) = slash # join_slash segs"
    by (simp add: toThumbUrl_def Let_def p dir e b j l_def [symmetric])
  then show ?thesis by (simp add: js D_def c_def l_def slash_def)
qed

text \<open>
  C4 (as stated) fails where the directory part of the source URL holds a segment that
  \<^verbatim>\<open>path.posix.join\<close> removes, and where the name is empty. For \<^verbatim>\<open>/a/../b.png\<close> the
  claim gives \<^verbatim>\<open>/gallery/thumbs/a/../b.jpg\<close>, the code \<^verbatim>\<open>/gallery/thumbs/b.jpg\<close>; for
  \<^verbatim>\<open>/../../../x.png\<close> the code gives \<^verbatim>\<open>/../x.jpg\<close>, outside \<^verbatim>\<open>gallery/thumbs\<close>;
  for \<^verbatim>\<open>/a//b.png\<close> and \<^verbatim>\<open>/a/./b.png\<close> it gives \<^verbatim>\<open>/gallery/thumbs/a/b.jpg\<close>; and
  for \<^verbatim>\<open>/photos/.png\<close>, whose name is empty, it gives
  \<^verbatim>\<open>/gallery/thumbs/photos/.png.jpg\<close>, not \<^verbatim>\<open>/gallery/thumbs/photos/.jpg\<close>.
\<close>

theorem toThumbUrl_mirrors_source_counterexample:
  "toThumbUrl (JString ''/a/../b.png'') = ''/gallery/thumbs/b.jpg''
   \<and> toThumbUrl (JString ''/a/../b.png'') \<noteq> ''/gallery/thumbs/a/../b.jpg''
   \<and> toThumbUrl (JString ''/../../../x.png'') = ''/../x.jpg''
   \<and> \<not> prefix ''/gallery/thumbs/'' (toThumbUrl (JString ''/../../../x.png''))
   \<and> toThumbUrl (JString ''/a//b.png'') = ''/gallery/thumbs/a/b.jpg''
   \<and> toThumbUrl (JString ''/a/./b.png'') = ''/gallery/thumbs/a/b.jpg''
   \<and> toThumbUrl (JString ''/photos/.png'') = ''/gallery/thumbs/photos/.png.jpg''"
  by code_simp

text \<open>
  C4 (as amended). Let the source URL be \<^verbatim>\<open>/<dir>/<name>.<ext>\<close> where \<open>dir\<close> is one or
  more directory names joined by slashes, none of them empty, \<^verbatim>\<open>.\<close> or \<^verbatim>\<open>..\<close>;
  \<open>name\<close> is not empty; \<open>ext\<close> holds no dot; the file name \<^verbatim>\<open><name>.<ext>\<close> is not
  \<^verbatim>\<open>..\<close>; and, the URL being normalized, no part holds a slash or a backslash. Then
  the thumbnail URL is exactly \<^verbatim>\<open>/gallery/thumbs/<dir>/<name>.jpg\<close>. And the thumbnail
  URL of any argument at all ends in \<^verbatim>\<open>.jpg\<close>.
\<close>

theorem toThumbUrl_mirrors_source:
  assumes "dirs \<noteq> []"
    and "\<forall>d \<in> set dirs. d \<noteq> [] \<and> d \<noteq> ''.'' \<and> d \<noteq> ''..'' \<and> slash \<notin> set d \<and> backslash \<notin> set d"
    and "name \<noteq> []" "slash \<notin> set name" "backslash \<notin> set name"
    and "name @ dot # ext \<noteq> ''..''" "slash \<notin> set ext" "backslash \<notin> set ext"
      "dot \<notin> set ext"
  shows "toThumbUrl (JString (slash # join_slash dirs @ slash # name @ dot # ext))
           = ''/gallery/thumbs/'' @ join_slash dirs @ slash # name @ ''.jpg''
       \<and> suffix ''.jpg'' (toThumbUrl srcUrl)"
proof -
  have "\<forall>d \<in> set dirs. plain_segment d \<and> backslash \<notin> set d"
    using assms(2) by (simp add: plain_segment_def)
  from toThumbUrl_form [OF assms(1) this assms(3-9)] toThumbUrl_jpg [of srcUrl]
  show ?thesis by blast
qed

theorem toThumbUrl_mirrors_source_witness:
  "toThumbUrl (JString ''/photos/italy/rome-01.PNG'') = ''/gallery/thumbs/photos/italy/rome-01.jpg''
   \<and> toThumbUrl (JString ''/photos/rome.'') = ''/gallery/thumbs/photos/rome.jpg''"
  using toThumbUrl_mirrors_source [of "[''photos'', ''italy'']" "''rome-01''" "''PNG''"]
    toThumbUrl_mirrors_source [of "[''photos'']" "''rome''" "[]"]
  by (simp add: slash_def backslash_def dot_def)

lemma normalize_keeps_last_any:
  assumes "plain_segment l" "J \<noteq> []"
  shows "suffix l (posix_normalize (J @ slash # l))"
proof -
  have l: "l \<noteq> []" "slash \<notin> set l" using assms(1) by (simp_all add: plain_segment_def)
  have sp: "split_slash (J @ slash # l) = split_slash J @ [l]"
    by (simp add: split_slash_append split_slash_no_slash l)
  have s: "suffix l (normalizeString (J @ slash # l) allow)" for allow
    unfolding normalizeString_def sp by (simp add: push_plain [OF assms(1)] suffix_join_slash_snoc)
  then have ne: "normalizeString (J @ slash # l) allow \<noteq> []" for allow
    using l(1) by (metis suffix_bot.extremum_uniqueI)
  have t: "last (J @ slash # l) \<noteq> slash"
    using l by (metis last.simps last_appendR last_in_set list.distinct(1))
  have "suffix l (a @ normalizeString (J @ slash # l) allow)" for a allow
    using s [of allow] by (simp add: suffix_append)
  then show ?thesis
    unfolding posix_normalize_def Let_def using ne t by simp
qed

lemma posix_normalize_not_Nil: "posix_normalize p \<noteq> []"
  by (simp add: posix_normalize_def Let_def)

lemma posix_join_not_Nil: "posix_join args \<noteq> []"
  by (simp add: posix_join_def Let_def posix_normalize_not_Nil)

lemma posix_join_keeps_last:
  assumes "plain_segment l" "a \<noteq> []" "r = l \<or> (\<exists>z. r = z @ slash # l)"
  shows "suffix l (posix_join [a, r])"
proof -
  have l: "l \<noteq> []" using assms(1) by (simp add: plain_segment_def)
  then have r: "r \<noteq> []" using assms(3) by auto
  have j: "join_slash (filter (\<lambda>arg. arg \<noteq> []) [a, r]) = a @ slash # r"
    using assms(2) r by simp
  from assms(3) obtain J where J: "a @ slash # r = J @ slash # l" "J \<noteq> []"
  proof
    assume "r = l"
    then show ?thesis using that [of a] assms(2) by simp
  next
    assume "\<exists>z. r = z @ slash # l"
    then obtain z where "r = z @ slash # l" by blast
    then show ?thesis using that [of "a @ slash # z"] by simp
  qed
  show ?thesis
    unfolding posix_join_def Let_def j J(1)
    using normalize_keeps_last_any [OF assms(1) J(2)] by simp
qed

lemma last_component_subset: "set (last_component p) \<subseteq> set p"
proof -
  have "set (last_component p) \<subseteq> set (dropWhile (\<lambda>c. c = slash) (rev p))"
    unfolding last_component_def by (auto dest: set_takeWhileD)
  also have "\<dots> \<subseteq> set (rev p)" by (auto dest: set_dropWhileD)
  finally show ?thesis by simp
qed

lemma posix_basename_subset: "set (posix_basename p sfx) \<subseteq> set p"
  using last_component_subset [of p]
  by (auto simp: posix_basename_def Let_def dest: in_set_takeD in_set_dropD)

lemma normalizeUrlPath_no_backslash: "backslash \<notin> set (normalizeUrlPath v)"
  by (auto simp: normalizeUrlPath_def replaceAll_def slash_def backslash_def)

lemma stripLeadingSlash_subset: "set (stripLeadingSlash p) \<subseteq> set p"
  by (cases p) (auto simp: stripLeadingSlash_def)

lemma replaceAll_append: "replaceAll a b (xs @ ys) = replaceAll a b xs @ replaceAll a b ys"
  by (simp add: replaceAll_def)

lemma toThumbUrl_shape:
  "\<exists>y l. toThumbUrl srcUrl = y @ slash # l \<and> plain_segment l \<and> backslash \<notin> set l
     \<and> suffix ''.jpg'' l"
proof -
  define p where "p = stripLeadingSlash (normalizeUrlPath srcUrl)"
  define base where "base = posix_basename p (posix_extname p)"
  define l where "l = base @ ''.jpg''"
  define xs where "xs = filter (\<lambda>arg. arg \<noteq> []) [''gallery'', ''thumbs'', posix_dirname p]"
  have pb: "backslash \<notin> set p"
    unfolding p_def using stripLeadingSlash_subset normalizeUrlPath_no_backslash by blast
  have base: "slash \<notin> set base" unfolding base_def by (rule basename_extname_no_slash)
  have bb: "backslash \<notin> set base"
    unfolding base_def using posix_basename_subset pb by blast
  have l: "plain_segment l"
    using base by (cases base rule: rev_cases) (auto simp: plain_segment_def l_def slash_def)
  have lb: "backslash \<notin> set l" using bb by (auto simp: l_def backslash_def)
  have lj: "suffix ''.jpg'' l" by (simp add: l_def suffix_def)
  have xs: "xs = ''gallery'' # tl xs" "tl xs \<noteq> []" by (simp_all add: xs_def)
  have xsne: "xs \<noteq> []" using xs(1) by auto
  define J where "J = join_slash xs"
  have J: "J \<noteq> []" "hd J \<noteq> slash"
    unfolding J_def by (subst xs(1), simp add: join_slash_Cons [OF xs(2)] slash_def)+
  have f: "filter (\<lambda>arg. arg \<noteq> []) [''gallery'', ''thumbs'', posix_dirname p, l] = xs @ [l]"
    using l by (simp add: xs_def plain_segment_def)
  have j: "join_slash (xs @ [l]) = J @ slash # l"
    unfolding J_def using xsne by (rule join_slash_snoc)
  have pj: "posix_join [''gallery'', ''thumbs'', posix_dirname p, l] = posix_normalize (J @ slash # l)"
    unfolding posix_join_def Let_def f j by simp
  have l': "l \<noteq> []" "slash \<notin> set l" using l by (simp_all add: plain_segment_def)
  have sp: "split_slash (J @ slash # l) = split_slash J @ [l]"
    by (simp add: split_slash_append split_slash_no_slash l')
  define st where "st = foldl (push_segment True) [] (split_slash J)"
  have n: "normalizeString (J @ slash # l) True = join_slash (st @ [l])"
    unfolding normalizeString_def sp st_def by (simp add: push_plain [OF l])
  have nn: "join_slash (st @ [l]) \<noteq> []"
    using suffix_join_slash_snoc [of l st] l'(1) by (metis suffix_bot.extremum_uniqueI)
  have t: "last (J @ slash # l) \<noteq> slash"
    using l' by (metis last.simps last_appendR last_in_set list.distinct(1))
  have h: "hd (J @ slash # l) \<noteq> slash" using J by simp
  have "posix_normalize (J @ slash # l) = join_slash (st @ [l])"
    unfolding posix_normalize_def Let_def using nn t h by (simp add: n)
  then have T: "toThumbUrl srcUrl = replaceAll backslash slash (slash # join_slash (st @ [l]))"
    by (simp add: toThumbUrl_def Let_def p_def [symmetric] base_def [symmetric] l_def [symmetric] pj)
  have rl: "replaceAll backslash slash l = l" using lb by (rule replaceAll_id)
  have rs: "replaceAll backslash slash [slash] = [slash]" by (simp add: replaceAll_def)
  show ?thesis
  proof (cases "st = []")
    case True
    then have "toThumbUrl srcUrl = [] @ slash # l"
      using T rl replaceAll_append [of backslash slash "[slash]" l] rs by simp
    with l lb lj show ?thesis by blast
  next
    case False
    then have "join_slash (st @ [l]) = join_slash st @ slash # l" by (rule join_slash_snoc)
    then have "slash # join_slash (st @ [l]) = (slash # join_slash st) @ [slash] @ l" by simp
    then have "toThumbUrl srcUrl = replaceAll backslash slash (slash # join_slash st) @ slash # l"
      unfolding T by (simp only: replaceAll_append rl rs) simp
    with l lb lj show ?thesis by blast
  qed
qed

lemma absThumb_jpg: "suffix ''.jpg'' (absThumb_of e item)"
proof -
  obtain y l where T: "toThumbUrl (JString (src_of item)) = y @ slash # l"
    and l: "plain_segment l" "backslash \<notin> set l" "suffix ''.jpg'' l"
    using toThumbUrl_shape by blast
  let ?f = "replaceAll backslash slash"
  have rl: "?f l = l" using l(2) by (rule replaceAll_id)
  have sb: "slash \<noteq> backslash" by (simp add: slash_def backslash_def)
  define u where "u = toThumbUrl (JString (src_of item))"
  have "stripLeadingSlash (normalizeUrlPath (JString u)) = l
      \<or> (\<exists>z. stripLeadingSlash (normalizeUrlPath (JString u)) = z @ slash # l)"
  proof (cases y)
    case Nil
    then have "normalizeUrlPath (JString u) = slash # l"
      using T rl sb by (simp add: u_def normalizeUrlPath_def replaceAll_def)
    then show ?thesis by (simp add: stripLeadingSlash_def)
  next
    case (Cons c cs)
    have n: "normalizeUrlPath (JString u) = ?f (ensureLeadingSlash (JString (c # cs @ slash # l)))"
      using T Cons by (simp add: u_def normalizeUrlPath_def)
    show ?thesis
    proof (cases "c = slash")
      case True
      then have "normalizeUrlPath (JString u) = slash # ?f cs @ slash # l"
        unfolding n using rl sb by (simp add: replaceAll_def)
      then show ?thesis by (auto simp: stripLeadingSlash_def)
    next
      case False
      then have "normalizeUrlPath (JString u) = slash # (?f (c # cs)) @ slash # l"
        unfolding n using rl sb by (simp add: replaceAll_def)
      then show ?thesis by (auto simp: stripLeadingSlash_def)
    qed
  qed
  then have "suffix l (posix_join [PUBLIC_DIR e, stripLeadingSlash (normalizeUrlPath (JString u))])"
    using l(1) posix_join_not_Nil [of "[PROJECT_ROOT e, ''public'']"]
    by (intro posix_join_keeps_last) (simp_all add: PUBLIC_DIR_def)
  then have "suffix l (absThumb_of e item)"
    by (simp add: absThumb_of_def toFsPathFromPublicUrl_def u_def)
  with l(3) show ?thesis by (rule suffix_order.trans)
qed

lemma MANIFEST_JSON_json: "suffix ''gallery.manifest.json'' (MANIFEST_JSON e)"
  unfolding MANIFEST_JSON_def
  by (rule posix_join_keeps_last)
     (simp_all add: plain_segment_def slash_def GENERATED_DIR_def posix_join_not_Nil)

lemma absThumb_not_manifest: "absThumb_of e item \<noteq> MANIFEST_JSON e"
proof
  assume eq: "absThumb_of e item = MANIFEST_JSON e"
  from absThumb_jpg [of e item] obtain a where a: "absThumb_of e item = a @ ''.jpg''"
    by (auto simp: suffix_def)
  from MANIFEST_JSON_json [of e] obtain b where b: "MANIFEST_JSON e = b @ ''gallery.manifest.json''"
    by (auto simp: suffix_def)
  from eq a b have "last (a @ ''.jpg'') = last (b @ ''gallery.manifest.json'')" by simp
  then show False by simp
qed

section \<open>Properties of the run\<close>

lemma process_item_calls:
  assumes "process_item e idx item h = (r, h')"
  shows "\<exists>new. h' = h @ new \<and> \<not> list_ex is_write new
           \<and> \<not> list_ex (writes_to (MANIFEST_JSON e)) new"
  using assms absThumb_not_manifest [of e item]
  unfolding process_item_def Let_def absThumb_of_def src_of_def
  by (auto split: if_splits option.splits sum.splits)

lemma process_item_photo:
  assumes "process_item e idx item h = (Inr p, h')"
  shows "photo_src p = src_of item"
    and "photo_id p = stableIdFromSrc (JString (src_of item))"
    and "photo_thumbSrc p = toThumbUrl (JString (src_of item))"
    and "photo_title p = text_of (item_title item)"
    and "photo_shotUsing p = text_of (item_shotUsing item)"
    and "photo_location p = text_of (item_location item)"
    and "photo_description p = text_of (item_description item)"
    and "0 < photo_width p" and "0 < photo_height p"
    and "photo_thumbWidth p = thumbWidth_of (photo_width p)"
    and "photo_thumbHeight p = thumbHeight_of (photo_width p) (photo_height p)"
  using assms unfolding process_item_def Let_def src_of_def text_of_def
  by (auto split: if_splits option.splits sum.splits)

lemma process_items_append:
  "process_items e idx (xs @ ys) ps h =
     (case process_items e idx xs ps h of
        (Inl err, h') \<Rightarrow> (Inl err, h')
      | (Inr ps', h') \<Rightarrow> process_items e (idx + length xs) ys ps' h')"
  by (induction xs arbitrary: idx ps h) (auto split: prod.splits sum.splits)

lemma process_items_calls:
  assumes "process_items e idx items ps h = (r, h')"
  shows "\<exists>new. h' = h @ new \<and> \<not> list_ex is_write new
           \<and> \<not> list_ex (writes_to (MANIFEST_JSON e)) new"
  using assms
proof (induction items arbitrary: idx ps h)
  case Nil
  then show ?case by auto
next
  case (Cons item items)
  obtain r1 h1 where p: "process_item e idx item h = (r1, h1)" by (cases "process_item e idx item h")
  from process_item_calls [OF p] obtain new1 where n1: "h1 = h @ new1" "\<not> list_ex is_write new1"
    "\<not> list_ex (writes_to (MANIFEST_JSON e)) new1"
    by blast
  show ?case
  proof (cases r1)
    case (Inl err)
    with Cons.prems p n1 show ?thesis by auto
  next
    case (Inr q)
    with Cons.prems p have "process_items e (Suc idx) items (ps @ [q]) h1 = (r, h')" by simp
    from Cons.IH [OF this] obtain new2 where "h' = h1 @ new2" "\<not> list_ex is_write new2"
      "\<not> list_ex (writes_to (MANIFEST_JSON e)) new2" by blast
    with n1 have "h' = h @ (new1 @ new2) \<and> \<not> list_ex is_write (new1 @ new2)
        \<and> \<not> list_ex (writes_to (MANIFEST_JSON e)) (new1 @ new2)" by simp
    then show ?thesis by blast
  qed
qed

lemma process_items_photos:
  assumes "process_items e idx items ps h = (Inr ps', h')"
  shows "\<exists>new. ps' = ps @ new \<and> length new = length items
    \<and> map photo_src new = map src_of items
    \<and> map photo_title new = map (\<lambda>item. text_of (item_title item)) items
    \<and> map photo_shotUsing new = map (\<lambda>item. text_of (item_shotUsing item)) items
    \<and> map photo_location new = map (\<lambda>item. text_of (item_location item)) items
    \<and> map photo_description new = map (\<lambda>item. text_of (item_description item)) items
    \<and> map photo_id new = map (\<lambda>item. stableIdFromSrc (JString (src_of item))) items
    \<and> map photo_thumbSrc new = map (\<lambda>item. toThumbUrl (JString (src_of item))) items
    \<and> (\<forall>p \<in> set new. 0 < photo_width p \<and> 0 < photo_height p
          \<and> photo_thumbWidth p = thumbWidth_of (photo_width p)
          \<and> photo_thumbHeight p = thumbHeight_of (photo_width p) (photo_height p))"
  using assms
proof (induction items arbitrary: idx ps h)
  case Nil
  then show ?case by auto
next
  case (Cons item items)
  obtain r1 h1 where p: "process_item e idx item h = (r1, h1)" by (cases "process_item e idx item h")
  with Cons.prems obtain q where q: "r1 = Inr q" by (cases r1) auto
  with Cons.prems p have "process_items e (Suc idx) items (ps @ [q]) h1 = (Inr ps', h')" by simp
  from Cons.IH [OF this] obtain new where new: "ps' = (ps @ [q]) @ new" "length new = length items"
    "map photo_src new = map src_of items"
    "map photo_title new = map (\<lambda>item. text_of (item_title item)) items"
    "map photo_shotUsing new = map (\<lambda>item. text_of (item_shotUsing item)) items"
    "map photo_location new = map (\<lambda>item. text_of (item_location item)) items"
    "map photo_description new = map (\<lambda>item. text_of (item_description item)) items"
    "map photo_id new = map (\<lambda>item. stableIdFromSrc (JString (src_of item))) items"
    "map photo_thumbSrc new = map (\<lambda>item. toThumbUrl (JString (src_of item))) items"
    "\<forall>p \<in> set new. 0 < photo_width p \<and> 0 < photo_height p
          \<and> photo_thumbWidth p = thumbWidth_of (photo_width p)
          \<and> photo_thumbHeight p = thumbHeight_of (photo_width p) (photo_height p)"
    by blast
  note ph = process_item_photo [OF p [unfolded q]]
  show ?case
    by (rule exI [of _ "q # new"]) (use new ph in simp)
qed

lemma main_success:
  assumes "main e = (Inr u, h)"
  shows "\<exists>items ps h0. readJson e (SOURCE_JSON e) = Inr (JArray items)
    \<and> process_items e 0 items [] [Mkdir (GENERATED_DIR e), Mkdir (THUMBS_PUBLIC_DIR e)] = (Inr ps, h0)
    \<and> h = h0 @ [WriteFile (MANIFEST_JSON e)
          \<lparr>generatedAt = now e h0,
           thumb = \<lparr>policy_width = THUMB_WIDTH, policy_quality = THUMB_QUALITY, policy_format = ''jpeg''\<rparr>,
           photos = ps\<rparr>]"
  using assms unfolding main_def Let_def
  by (auto split: sum.splits json.splits option.splits prod.splits)

lemma process_item_generates:
  assumes "process_item e idx item h = (Inr p, h')"
  shows "h' = h @ [Mkdir (posix_dirname (absThumb_of e item))]
           @ (if shouldGenerate
                   (fileMtimeMs e (h @ [Mkdir (posix_dirname (absThumb_of e item))]) (absSrc_of e item))
                   (fileMtimeMs e (h @ [Mkdir (posix_dirname (absThumb_of e item))]) (absThumb_of e item))
              then [ToFile (absSrc_of e item) (photo_thumbWidth p) (photo_thumbHeight p)
                      (absThumb_of e item)]
              else [])"
  using assms unfolding process_item_def Let_def absSrc_of_def absThumb_of_def src_of_def
  by (auto split: if_splits option.splits sum.splits)

lemma shouldGenerate_stat:
  "shouldGenerate (fileMtimeMs e h absSrc) (fileMtimeMs e h absThumb)
     \<longleftrightarrow> (case stat e h absThumb of
            None \<Rightarrow> True
          | Some st \<Rightarrow> mtimeMs st < 0
              \<or> mtimeMs st < (case stat e h absSrc of None \<Rightarrow> - 1 | Some ss \<Rightarrow> mtimeMs ss))"
  by (auto simp: shouldGenerate_def fileMtimeMs_def split: option.splits)

text \<open>
  C1 (as stated) fails for a thumbnail that exists with a time stamp between the
  sentinel \<open>-1\<close> and 0: the code takes every negative \<^verbatim>\<open>thumbMtime\<close> for an absent
  thumbnail. With source and thumbnail both stamped \<open>-1/2\<close> the sentinel is below the
  real stamps and \<open>s = t\<close>, so the claim has no regeneration; the code decides to
  regenerate and writes the thumbnail.
\<close>

theorem regenerate_iff_stale_counterexample:
  "stat (stamped_env (- 1 / 2) (- 1 / 2) []) [Mkdir ''/site/public/gallery/thumbs/photos'']
       ''/site/public/gallery/thumbs/photos/a.jpg''
     = Some \<lparr>isFile = True, mtimeMs = - 1 / 2\<rparr>
   \<and> stat (stamped_env (- 1 / 2) (- 1 / 2) []) [Mkdir ''/site/public/gallery/thumbs/photos'']
       ''/site/public/photos/a.png''
     = Some \<lparr>isFile = True, mtimeMs = - 1 / 2\<rparr>
   \<and> (- 1 :: rat) < - 1 / 2
   \<and> shouldGenerate
         (fileMtimeMs (stamped_env (- 1 / 2) (- 1 / 2) [])
            [Mkdir ''/site/public/gallery/thumbs/photos''] ''/site/public/photos/a.png'')
         (fileMtimeMs (stamped_env (- 1 / 2) (- 1 / 2) [])
            [Mkdir ''/site/public/gallery/thumbs/photos'']
            ''/site/public/gallery/thumbs/photos/a.jpg'')
   \<and> snd (process_item (stamped_env (- 1 / 2) (- 1 / 2) []) 0
            (example_item (JString ''/photos/a.png'')) [])
     = [Mkdir ''/site/public/gallery/thumbs/photos'',
        ToFile ''/site/public/photos/a.png'' 4 3 ''/site/public/gallery/thumbs/photos/a.jpg'']"
  by code_simp

text \<open>
  C1 (as amended). Let \<open>st\<close> and \<open>ss\<close> be what \<^verbatim>\<open>fs.stat\<close> returns for the thumbnail and
  for the source. The decision \<^verbatim>\<open>shouldGenerate\<close> holds when the thumbnail is absent
  (its \<^verbatim>\<open>stat\<close> fails). When the thumbnail exists, it holds if and only if the
  thumbnail's \<^verbatim>\<open>mtimeMs\<close> is negative or strictly less than the source's (a source whose
  \<^verbatim>\<open>stat\<close> fails counts as \<open>-1\<close>). So for a thumbnail stamped \<open>t \<ge> 0\<close>: a source stamped
  \<open>t\<close> is not regenerated, a source stamped \<open>t + 1\<close> is. And a descriptor that is
  resolved has its thumbnail written by its turn of the loop exactly when the decision,
  read from the two \<^verbatim>\<open>stat\<close> results, holds.
\<close>

theorem regenerate_iff_stale:
  "(stat e h1 absThumb = None
      \<longrightarrow> shouldGenerate (fileMtimeMs e h1 absSrc) (fileMtimeMs e h1 absThumb))
   \<and> (stat e h1 absThumb = Some st \<and> stat e h1 absSrc = Some ss
      \<longrightarrow> (shouldGenerate (fileMtimeMs e h1 absSrc) (fileMtimeMs e h1 absThumb)
            \<longleftrightarrow> mtimeMs st < 0 \<or> mtimeMs st < mtimeMs ss))
   \<and> (stat e h1 absThumb = Some st \<and> stat e h1 absSrc = None
      \<longrightarrow> (shouldGenerate (fileMtimeMs e h1 absSrc) (fileMtimeMs e h1 absThumb)
            \<longleftrightarrow> mtimeMs st < 0))
   \<and> (stat e h1 absThumb = Some st \<and> stat e h1 absSrc = Some ss
        \<and> 0 \<le> mtimeMs st \<and> mtimeMs ss = mtimeMs st
      \<longrightarrow> \<not> shouldGenerate (fileMtimeMs e h1 absSrc) (fileMtimeMs e h1 absThumb))
   \<and> (stat e h1 absThumb = Some st \<and> stat e h1 absSrc = Some ss
        \<and> 0 \<le> mtimeMs st \<and> mtimeMs ss = mtimeMs st + 1
      \<longrightarrow> shouldGenerate (fileMtimeMs e h1 absSrc) (fileMtimeMs e h1 absThumb))
   \<and> (process_item e idx item h = (Inr p, h')
        \<and> h1 = h @ [Mkdir (posix_dirname (absThumb_of e item))]
        \<and> absSrc = absSrc_of e item \<and> absThumb = absThumb_of e item
      \<longrightarrow> (list_ex (written_to absThumb) (drop (length h) h')
            \<longleftrightarrow> (case stat e h1 absThumb of
                   None \<Rightarrow> True
                 | Some st' \<Rightarrow> mtimeMs st' < 0
                     \<or> mtimeMs st' < (case stat e h1 absSrc of
                                        None \<Rightarrow> - 1 | Some ss' \<Rightarrow> mtimeMs ss'))))"
proof -
  note d = shouldGenerate_stat [of e h1 absSrc absThumb]
  have 1: "stat e h1 absThumb = None
      \<longrightarrow> shouldGenerate (fileMtimeMs e h1 absSrc) (fileMtimeMs e h1 absThumb)"
    unfolding d by simp
  have 2: "stat e h1 absThumb = Some st \<and> stat e h1 absSrc = Some ss
      \<longrightarrow> (shouldGenerate (fileMtimeMs e h1 absSrc) (fileMtimeMs e h1 absThumb)
            \<longleftrightarrow> mtimeMs st < 0 \<or> mtimeMs st < mtimeMs ss)"
    unfolding d by simp
  have 3: "stat e h1 absThumb = Some st \<and> stat e h1 absSrc = None
      \<longrightarrow> (shouldGenerate (fileMtimeMs e h1 absSrc) (fileMtimeMs e h1 absThumb)
            \<longleftrightarrow> mtimeMs st < 0)"
    unfolding d by auto
  have 4: "stat e h1 absThumb = Some st \<and> stat e h1 absSrc = Some ss
        \<and> 0 \<le> mtimeMs st \<and> mtimeMs ss = mtimeMs st
      \<longrightarrow> \<not> shouldGenerate (fileMtimeMs e h1 absSrc) (fileMtimeMs e h1 absThumb)"
    unfolding d by auto
  have 5: "stat e h1 absThumb = Some st \<and> stat e h1 absSrc = Some ss
        \<and> 0 \<le> mtimeMs st \<and> mtimeMs ss = mtimeMs st + 1
      \<longrightarrow> shouldGenerate (fileMtimeMs e h1 absSrc) (fileMtimeMs e h1 absThumb)"
    unfolding d by auto
  have 6: "process_item e idx item h = (Inr p, h')
        \<and> h1 = h @ [Mkdir (posix_dirname (absThumb_of e item))]
        \<and> absSrc = absSrc_of e item \<and> absThumb = absThumb_of e item
      \<longrightarrow> (list_ex (written_to absThumb) (drop (length h) h')
            \<longleftrightarrow> (case stat e h1 absThumb of
                   None \<Rightarrow> True
                 | Some st' \<Rightarrow> mtimeMs st' < 0
                     \<or> mtimeMs st' < (case stat e h1 absSrc of
                                        None \<Rightarrow> - 1 | Some ss' \<Rightarrow> mtimeMs ss')))"
  proof (intro impI, elim conjE)
    assume p: "process_item e idx item h = (Inr p, h')"
      and h1: "h1 = h @ [Mkdir (posix_dirname (absThumb_of e item))]"
      and a: "absSrc = absSrc_of e item" "absThumb = absThumb_of e item"
    have "list_ex (written_to absThumb) (drop (length h) h')
        \<longleftrightarrow> shouldGenerate (fileMtimeMs e h1 absSrc) (fileMtimeMs e h1 absThumb)"
      by (subst process_item_generates [OF p]) (simp add: h1 a)
    then show "list_ex (written_to absThumb) (drop (length h) h')
            \<longleftrightarrow> (case stat e h1 absThumb of
                   None \<Rightarrow> True
                 | Some st' \<Rightarrow> mtimeMs st' < 0
                     \<or> mtimeMs st' < (case stat e h1 absSrc of
                                        None \<Rightarrow> - 1 | Some ss' \<Rightarrow> mtimeMs ss'))"
      unfolding d .
  qed
  from 1 2 3 4 5 6 show ?thesis by (intro conjI)
qed

theorem regenerate_iff_stale_witness:
  "list_ex (written_to ''/site/public/gallery/thumbs/photos/a.jpg'')
     (snd (process_item (stamped_env 1001 1000 []) 0 (example_item (JString ''/photos/a.png'')) []))
   \<and> \<not> list_ex (written_to ''/site/public/gallery/thumbs/photos/a.jpg'')
     (snd (process_item (stamped_env 1000 1000 []) 0 (example_item (JString ''/photos/a.png'')) []))
   \<and> shouldGenerate
        (fileMtimeMs (example_env []) [] ''/site/public/photos/a.png'')
        (fileMtimeMs (example_env []) [] ''/site/public/gallery/thumbs/photos/a.jpg'')"
proof -
  let ?item = "example_item (JString ''/photos/a.png'')"
  let ?s = "''/site/public/photos/a.png''"
  let ?t = "''/site/public/gallery/thumbs/photos/a.jpg''"
  let ?h1 = "[Mkdir ''/site/public/gallery/thumbs/photos'']"
  let ?p = "\<lparr>photo_id = ''photos-a-png'', photo_src = ''/photos/a.png'',
             photo_thumbSrc = ''/gallery/thumbs/photos/a.jpg'', photo_width = 4,
             photo_height = 3, photo_thumbWidth = 4, photo_thumbHeight = 3,
             photo_title = ''Rome'', photo_shotUsing = [], photo_location = [],
             photo_description = ''42''\<rparr>"
  let ?N = "stamped_env 1001 1000 []"
  let ?E = "stamped_env 1000 1000 []"
  have pn: "process_item ?N 0 ?item [] = (Inr ?p, ?h1 @ [ToFile ?s 4 3 ?t])" by code_simp
  have pe: "process_item ?E 0 ?item [] = (Inr ?p, ?h1)" by code_simp
  have an: "absSrc_of ?N ?item = ?s" "absThumb_of ?N ?item = ?t"
    "posix_dirname ?t = ''/site/public/gallery/thumbs/photos''" by code_simp+
  have ae: "absSrc_of ?E ?item = ?s" "absThumb_of ?E ?item = ?t" by code_simp+
  have sn: "stat ?N ?h1 ?t = Some \<lparr>isFile = True, mtimeMs = 1000\<rparr>"
    "stat ?N ?h1 ?s = Some \<lparr>isFile = True, mtimeMs = 1001\<rparr>" by code_simp+
  have se: "stat ?E ?h1 ?t = Some \<lparr>isFile = True, mtimeMs = 1000\<rparr>"
    "stat ?E ?h1 ?s = Some \<lparr>isFile = True, mtimeMs = 1000\<rparr>" by code_simp+
  have s0: "stat (example_env []) [] ?t = None" by code_simp
  note n = regenerate_iff_stale [where e = ?N and idx = 0 and item = ?item and h = "[]"
      and p = ?p and h' = "?h1 @ [ToFile ?s 4 3 ?t]" and ?h1.0 = ?h1 and absSrc = ?s
      and absThumb = ?t, THEN conjunct2, THEN conjunct2, THEN conjunct2, THEN conjunct2,
      THEN conjunct2]
  note e = regenerate_iff_stale [where e = ?E and idx = 0 and item = ?item and h = "[]"
      and p = ?p and h' = ?h1 and ?h1.0 = ?h1 and absSrc = ?s
      and absThumb = ?t, THEN conjunct2, THEN conjunct2, THEN conjunct2, THEN conjunct2,
      THEN conjunct2]
  note z = regenerate_iff_stale [where e = "example_env []" and ?h1.0 = "[]" and absSrc = ?s
      and absThumb = ?t, THEN conjunct1]
  have a: "list_ex (written_to ?t) (snd (process_item ?N 0 ?item []))"
    using n pn an sn by simp
  have b: "\<not> list_ex (written_to ?t) (snd (process_item ?E 0 ?item []))"
    using e pe ae an(3) se by simp
  have c: "shouldGenerate (fileMtimeMs (example_env []) [] ?s) (fileMtimeMs (example_env []) [] ?t)"
    using z s0 by simp
  from a b c show ?thesis by (intro conjI)
qed

lemma main_write:
  assumes "readJson e (SOURCE_JSON e) = Inr (JArray items)"
    and "list_ex is_write (snd (main e))"
  shows "\<exists>ps h0. process_items e 0 items [] [Mkdir (GENERATED_DIR e), Mkdir (THUMBS_PUBLIC_DIR e)] = (Inr ps, h0)
    \<and> \<not> list_ex is_write h0
    \<and> snd (main e) = h0 @ [WriteFile (MANIFEST_JSON e)
          \<lparr>generatedAt = now e h0,
           thumb = \<lparr>policy_width = THUMB_WIDTH, policy_quality = THUMB_QUALITY, policy_format = ''jpeg''\<rparr>,
           photos = ps\<rparr>]"
proof -
  let ?h1 = "[Mkdir (GENERATED_DIR e), Mkdir (THUMBS_PUBLIC_DIR e)]"
  obtain r h0 where l: "process_items e 0 items [] ?h1 = (r, h0)"
    by (cases "process_items e 0 items [] ?h1")
  from process_items_calls [OF l] obtain new where new: "h0 = ?h1 @ new" "\<not> list_ex is_write new"
    by blast
  then have nw: "\<not> list_ex is_write h0" by simp
  show ?thesis
    using assms l nw unfolding main_def Let_def
    by (auto split: sum.splits option.splits prod.splits)
qed

lemma main_first_failure:
  assumes "readJson e (SOURCE_JSON e) = Inr (JArray items)"
    and "mkdir e [] (GENERATED_DIR e) = None"
    and "mkdir e [Mkdir (GENERATED_DIR e)] (THUMBS_PUBLIC_DIR e) = None"
    and "i < length items"
    and "process_items e 0 (take i items) [] [Mkdir (GENERATED_DIR e), Mkdir (THUMBS_PUBLIC_DIR e)] = (Inr ps, h)"
    and "process_item e i (items ! i) h = (Inl err, h')"
  shows "main e = (Inl err, h')" and "\<not> list_ex is_write h'"
    and "\<not> list_ex (writes_to (MANIFEST_JSON e)) h'"
proof -
  let ?h1 = "[Mkdir (GENERATED_DIR e), Mkdir (THUMBS_PUBLIC_DIR e)]"
  have items: "items = take i items @ (items ! i) # drop (Suc i) items"
    using assms(4) by (simp add: id_take_nth_drop)
  have len: "length (take i items) = i" using assms(4) by simp
  have m: "min (length items) i = i" using assms(4) by simp
  have l: "process_items e 0 items [] ?h1 = (Inl err, h')"
    by (subst items, subst process_items_append) (simp add: assms(5,6) m del: append_take_drop_id)
  then show "main e = (Inl err, h')"
    using assms(1-3) by (simp add: main_def)
  from process_items_calls [OF l] show "\<not> list_ex is_write h'"
    and "\<not> list_ex (writes_to (MANIFEST_JSON e)) h'" by auto
qed

text \<open>
  C6. Let the input be an array and the two directories be made. If the descriptors
  before index \<open>i\<close> are resolved and the descriptor at \<open>i\<close> fails, with whatever error
  (the source is no non-empty string, the file is missing, the image cannot be read, the
  thumbnail cannot be written), then the run ends there: it returns that error with the
  calls made up to it, none of them a \<^verbatim>\<open>writeFile\<close> and none of them writing to the
  manifest's path (a thumbnail's path ends in \<^verbatim>\<open>.jpg\<close>), and the exit code is 1. And
  whenever the run does call \<^verbatim>\<open>writeFile\<close>, every descriptor has been resolved, the
  call is the last one, and it writes the manifest.
\<close>

theorem fail_fast_no_manifest:
  assumes "readJson e (SOURCE_JSON e) = Inr (JArray items)"
  shows "(\<forall>i ps h err h'.
            mkdir e [] (GENERATED_DIR e) = None
          \<and> mkdir e [Mkdir (GENERATED_DIR e)] (THUMBS_PUBLIC_DIR e) = None
          \<and> i < length items
          \<and> process_items e 0 (take i items) []
               [Mkdir (GENERATED_DIR e), Mkdir (THUMBS_PUBLIC_DIR e)] = (Inr ps, h)
          \<and> process_item e i (items ! i) h = (Inl err, h')
          \<longrightarrow> run e = \<lparr>exitCode = 1, printed = Some err, calls = h'\<rparr>
              \<and> \<not> list_ex is_write h'
              \<and> \<not> list_ex (writes_to (MANIFEST_JSON e)) h')
       \<and> (list_ex is_write (calls (run e))
          \<longrightarrow> (\<exists>ps h0 m.
                 process_items e 0 items []
                   [Mkdir (GENERATED_DIR e), Mkdir (THUMBS_PUBLIC_DIR e)] = (Inr ps, h0)
               \<and> length ps = length items
               \<and> \<not> list_ex is_write h0
               \<and> photos m = ps
               \<and> calls (run e) = h0 @ [WriteFile (MANIFEST_JSON e) m]))"
proof (intro conjI allI impI)
  fix i ps h err h'
  assume a: "mkdir e [] (GENERATED_DIR e) = None
          \<and> mkdir e [Mkdir (GENERATED_DIR e)] (THUMBS_PUBLIC_DIR e) = None
          \<and> i < length items
          \<and> process_items e 0 (take i items) []
               [Mkdir (GENERATED_DIR e), Mkdir (THUMBS_PUBLIC_DIR e)] = (Inr ps, h)
          \<and> process_item e i (items ! i) h = (Inl err, h')"
  then have "main e = (Inl err, h')" using main_first_failure(1) [OF assms] by blast
  then show "run e = \<lparr>exitCode = 1, printed = Some err, calls = h'\<rparr>" by (simp add: run_def)
  from a show "\<not> list_ex is_write h'" using main_first_failure(2) [OF assms] by blast
  from a show "\<not> list_ex (writes_to (MANIFEST_JSON e)) h'"
    using main_first_failure(3) [OF assms] by blast
next
  assume "list_ex is_write (calls (run e))"
  moreover have c: "calls (run e) = snd (main e)"
    by (cases "main e") (auto simp: run_def split: sum.splits)
  ultimately have "list_ex is_write (snd (main e))" by simp
  from main_write [OF assms this] obtain ps h0 where w:
    "process_items e 0 items [] [Mkdir (GENERATED_DIR e), Mkdir (THUMBS_PUBLIC_DIR e)] = (Inr ps, h0)"
    "\<not> list_ex is_write h0"
    "snd (main e) = h0 @ [WriteFile (MANIFEST_JSON e)
          \<lparr>generatedAt = now e h0,
           thumb = \<lparr>policy_width = THUMB_WIDTH, policy_quality = THUMB_QUALITY, policy_format = ''jpeg''\<rparr>,
           photos = ps\<rparr>]"
    by blast
  from process_items_photos [OF w(1)] have "length ps = length items" by auto
  with w c show "\<exists>ps h0 m.
                 process_items e 0 items []
                   [Mkdir (GENERATED_DIR e), Mkdir (THUMBS_PUBLIC_DIR e)] = (Inr ps, h0)
               \<and> length ps = length items
               \<and> \<not> list_ex is_write h0
               \<and> photos m = ps
               \<and> calls (run e) = h0 @ [WriteFile (MANIFEST_JSON e) m]"
    by (intro exI [of _ ps] exI [of _ h0]) auto
qed

theorem fail_fast_no_manifest_witness:
  "run (example_env [example_item (JString ''/photos/a.png''), example_item JUndefined,
                     example_item (JString ''/photos/b.png'')])
   = \<lparr>exitCode = 1,
      printed = Some (Error ''Missing file for gallery.json[1].src: expected /site/public''),
      calls = [Mkdir ''/site/src/generated'', Mkdir ''/site/public/gallery/thumbs'',
               Mkdir ''/site/public/gallery/thumbs/photos'',
               ToFile ''/site/public/photos/a.png'' 4 3
                 ''/site/public/gallery/thumbs/photos/a.jpg'']\<rparr>"
proof -
  let ?items = "[example_item (JString ''/photos/a.png''), example_item JUndefined,
                 example_item (JString ''/photos/b.png'')]"
  let ?E = "example_env ?items"
  let ?ps = "[\<lparr>photo_id = ''photos-a-png'', photo_src = ''/photos/a.png'',
               photo_thumbSrc = ''/gallery/thumbs/photos/a.jpg'',
               photo_width = 4, photo_height = 3, photo_thumbWidth = 4,
               photo_thumbHeight = 3, photo_title = ''Rome'',
               photo_shotUsing = [], photo_location = [],
               photo_description = ''42''\<rparr>]"
  let ?h = "[Mkdir ''/site/src/generated'', Mkdir ''/site/public/gallery/thumbs'',
             Mkdir ''/site/public/gallery/thumbs/photos'',
             ToFile ''/site/public/photos/a.png'' 4 3
               ''/site/public/gallery/thumbs/photos/a.jpg'']"
  let ?err = "Error ''Missing file for gallery.json[1].src: expected /site/public''"
  have r: "readJson ?E (SOURCE_JSON ?E) = Inr (JArray ?items)" by code_simp
  have m1: "mkdir ?E [] (GENERATED_DIR ?E) = None" by code_simp
  have m2: "mkdir ?E [Mkdir (GENERATED_DIR ?E)] (THUMBS_PUBLIC_DIR ?E) = None" by code_simp
  have i: "1 < length ?items" by simp
  have p: "process_items ?E 0 (take 1 ?items) []
             [Mkdir (GENERATED_DIR ?E), Mkdir (THUMBS_PUBLIC_DIR ?E)] = (Inr ?ps, ?h)"
    by code_simp
  have f: "process_item ?E 1 (?items ! 1) ?h = (Inl ?err, ?h)" by code_simp
  from fail_fast_no_manifest [OF r, THEN conjunct1, rule_format, of 1 ?ps ?h ?err ?h] m1 m2 i p f
  show ?thesis by blast
qed

lemma run_calls: "calls (run e) = snd (main e)"
  by (cases "main e") (auto simp: run_def split: sum.splits)

text \<open>
  C7. A run that ends with exit code 0 has read an array, and its last call, the only
  \<^verbatim>\<open>writeFile\<close>, writes a manifest whose \<open>photos\<close> has one entry for each element of
  the array, in the array's order: the entry at each position carries the source, the
  identifier, the thumbnail URL and the texts of the descriptor at that position.
  Nothing is left out, merged or moved.
\<close>

theorem manifest_order:
  assumes "exitCode (run e) = 0"
  shows "\<exists>items m h0.
      readJson e (SOURCE_JSON e) = Inr (JArray items)
    \<and> calls (run e) = h0 @ [WriteFile (MANIFEST_JSON e) m]
    \<and> \<not> list_ex is_write h0
    \<and> length (photos m) = length items
    \<and> map photo_src (photos m) = map src_of items
    \<and> map photo_id (photos m) = map (\<lambda>item. stableIdFromSrc (JString (src_of item))) items
    \<and> map photo_thumbSrc (photos m) = map (\<lambda>item. toThumbUrl (JString (src_of item))) items
    \<and> map photo_title (photos m) = map (\<lambda>item. text_of (item_title item)) items
    \<and> map photo_shotUsing (photos m) = map (\<lambda>item. text_of (item_shotUsing item)) items
    \<and> map photo_location (photos m) = map (\<lambda>item. text_of (item_location item)) items
    \<and> map photo_description (photos m) = map (\<lambda>item. text_of (item_description item)) items"
proof -
  obtain r h where m: "main e = (r, h)" by (cases "main e")
  with assms obtain u where "r = Inr u" by (cases r) (auto simp: run_def)
  with m have s: "main e = (Inr u, h)" by simp
  from main_success [OF s] obtain items ps h0 where
    r: "readJson e (SOURCE_JSON e) = Inr (JArray items)"
    and l: "process_items e 0 items [] [Mkdir (GENERATED_DIR e), Mkdir (THUMBS_PUBLIC_DIR e)] = (Inr ps, h0)"
    and h: "h = h0 @ [WriteFile (MANIFEST_JSON e)
          \<lparr>generatedAt = now e h0,
           thumb = \<lparr>policy_width = THUMB_WIDTH, policy_quality = THUMB_QUALITY, policy_format = ''jpeg''\<rparr>,
           photos = ps\<rparr>]"
    by blast
  from process_items_calls [OF l] have nw: "\<not> list_ex is_write h0" by auto
  have c: "calls (run e) = h" using s by (simp add: run_calls)
  from process_items_photos [OF l] r h nw c show ?thesis
    by (intro exI [of _ items] exI [of _ h0]
          exI [of _ "\<lparr>generatedAt = now e h0,
           thumb = \<lparr>policy_width = THUMB_WIDTH, policy_quality = THUMB_QUALITY, policy_format = ''jpeg''\<rparr>,
           photos = ps\<rparr>"]) auto
qed

theorem manifest_order_witness:
  "\<exists>m h0.
     calls (run (example_env [example_item (JString ''/photos/a.png''),
                              example_item (JString ''photos/b.png''),
                              example_item (JString ''/photos/a.png'')]))
       = h0 @ [WriteFile ''/site/src/generated/gallery.manifest.json'' m]
   \<and> map photo_src (photos m) = [''/photos/a.png'', ''/photos/b.png'', ''/photos/a.png'']"
proof -
  let ?items = "[example_item (JString ''/photos/a.png''),
                 example_item (JString ''photos/b.png''),
                 example_item (JString ''/photos/a.png'')]"
  let ?E = "example_env ?items"
  have x: "exitCode (run ?E) = 0" by code_simp
  have r: "readJson ?E (SOURCE_JSON ?E) = Inr (JArray ?items)" by code_simp
  have s: "map src_of ?items = [''/photos/a.png'', ''/photos/b.png'', ''/photos/a.png'']"
    by code_simp
  have j: "MANIFEST_JSON ?E = ''/site/src/generated/gallery.manifest.json''" by code_simp
  from manifest_order [OF x] obtain items m h0 where
    "readJson ?E (SOURCE_JSON ?E) = Inr (JArray items)"
    "calls (run ?E) = h0 @ [WriteFile (MANIFEST_JSON ?E) m]"
    "map photo_src (photos m) = map src_of items"
    by blast
  with r s j show ?thesis by auto
qed

lemma trim_slash_not_empty: "trim (slash # s) \<noteq> []"
proof -
  have ws: "\<not> is_ws slash" by (simp add: is_ws_def slash_def)
  then have 1: "dropWhile is_ws (slash # s) = slash # s" by simp
  have "slash \<in> set (rev (slash # s))" by simp
  with ws have "dropWhile is_ws (rev (slash # s)) \<noteq> []"
    by (metis dropWhile_eq_Nil_conv)
  then show ?thesis unfolding trim_def 1 by simp
qed

lemma normalized_string_is_non_empty:
  "isNonEmptyString (JString (normalizeUrlPath (JString s)))"
proof -
  have "normalizeUrlPath (JString s) \<noteq> [] \<and> hd (normalizeUrlPath (JString s)) = slash"
    by (cases s) (auto simp: normalizeUrlPath_def replaceAll_def slash_def backslash_def)
  then obtain r where "normalizeUrlPath (JString s) = slash # r"
    by (cases "normalizeUrlPath (JString s)") auto
  then show ?thesis using trim_slash_not_empty by simp
qed

lemma src_error_differs:
  "src_error idx \<noteq> missing_file_error idx' p" "src_error idx \<noteq> dimensions_error s"
  "missing_file_error idx' p \<noteq> src_error idx" "dimensions_error s \<noteq> src_error idx"
  by (simp_all add: src_error_def missing_file_error_def dimensions_error_def)

lemma string_src_passes_check:
  assumes "src_of item = normalizeUrlPath (JString s)"
  shows "fst (process_item e idx item h) \<noteq> Inl (Error (src_error idx))"
proof -
  have "isNonEmptyString (JString (src_of item))"
    unfolding assms by (rule normalized_string_is_non_empty)
  then show ?thesis
    unfolding process_item_def Let_def src_of_def [symmetric]
    by (auto simp: src_error_differs split: option.splits sum.splits)
qed

text \<open>
  C3 at the failing inputs. The descriptor's \<^verbatim>\<open>src\<close> is normalized before it is
  checked, and a string, once normalized, begins with a slash: so a missing \<^verbatim>\<open>src\<close>,
  a \<^verbatim>\<open>null\<close>, and every string, the empty and the blank ones included, pass
  \<^verbatim>\<open>isNonEmptyString\<close>, and the turn never ends with the error "must be a non-empty
  string". Only a value of another type is rejected with it. In the example site a
  descriptor without \<^verbatim>\<open>src\<close> ends the run with the missing-file error, for the
  directory \<^verbatim>\<open>public\<close>.
\<close>

theorem missing_src_passes_check:
  "fst (process_item e idx (item\<lparr>item_src := JUndefined\<rparr>) h) \<noteq> Inl (Error (src_error idx))
   \<and> fst (process_item e idx (item\<lparr>item_src := JNull\<rparr>) h) \<noteq> Inl (Error (src_error idx))
   \<and> fst (process_item e idx (item\<lparr>item_src := JString s\<rparr>) h) \<noteq> Inl (Error (src_error idx))
   \<and> process_item e idx (item\<lparr>item_src := JOther r\<rparr>) h = (Inl (Error (src_error idx)), h)
   \<and> src_error 12 = ''gallery.json[12].src must be a non-empty string''
   \<and> run (example_env [example_item JUndefined])
       = \<lparr>exitCode = 1,
          printed = Some (Error ''Missing file for gallery.json[0].src: expected /site/public''),
          calls = [Mkdir ''/site/src/generated'', Mkdir ''/site/public/gallery/thumbs'']\<rparr>"
proof -
  have a: "fst (process_item e idx (item\<lparr>item_src := JUndefined\<rparr>) h) \<noteq> Inl (Error (src_error idx))"
    by (rule string_src_passes_check [where s = "[]"]) (simp add: src_of_def)
  have b: "fst (process_item e idx (item\<lparr>item_src := JNull\<rparr>) h) \<noteq> Inl (Error (src_error idx))"
    by (rule string_src_passes_check [where s = "[]"]) (simp add: src_of_def)
  have c: "fst (process_item e idx (item\<lparr>item_src := JString s\<rparr>) h) \<noteq> Inl (Error (src_error idx))"
    by (rule string_src_passes_check [where s = s]) (simp add: src_of_def)
  have d: "process_item e idx (item\<lparr>item_src := JOther r\<rparr>) h = (Inl (Error (src_error idx)), h)"
    by (simp add: process_item_def normalizeUrlPath_def replaceAll_def trim_def)
  have f: "src_error 12 = ''gallery.json[12].src must be a non-empty string''" by code_simp
  have g: "run (example_env [example_item JUndefined])
       = \<lparr>exitCode = 1,
          printed = Some (Error ''Missing file for gallery.json[0].src: expected /site/public''),
          calls = [Mkdir ''/site/src/generated'', Mkdir ''/site/public/gallery/thumbs'']\<rparr>"
    by code_simp
  from a b c d f g show ?thesis by (intro conjI)
qed

lemma written_manifest_photos:
  assumes "WriteFile path m \<in> set (calls (run e))" "p \<in> set (photos m)"
  shows "0 < photo_width p \<and> 0 < photo_height p
        \<and> photo_thumbWidth p = thumbWidth_of (photo_width p)
        \<and> photo_thumbHeight p = thumbHeight_of (photo_width p) (photo_height p)"
proof -
  have w: "WriteFile path m \<in> set (snd (main e))" using assms(1) by (simp add: run_calls)
  then have lw: "list_ex is_write (snd (main e))" by (auto simp: list_ex_iff intro: bexI [of _ "WriteFile path m"])
  have "\<exists>items. readJson e (SOURCE_JSON e) = Inr (JArray items)"
    using w unfolding main_def by (auto split: sum.splits json.splits)
  then obtain items where r: "readJson e (SOURCE_JSON e) = Inr (JArray items)" by blast
  from main_write [OF r lw] obtain ps h0 where
    l: "process_items e 0 items [] [Mkdir (GENERATED_DIR e), Mkdir (THUMBS_PUBLIC_DIR e)] = (Inr ps, h0)"
    and nw: "\<not> list_ex is_write h0"
    and s: "snd (main e) = h0 @ [WriteFile (MANIFEST_JSON e)
          \<lparr>generatedAt = now e h0,
           thumb = \<lparr>policy_width = THUMB_WIDTH, policy_quality = THUMB_QUALITY, policy_format = ''jpeg''\<rparr>,
           photos = ps\<rparr>]"
    by blast
  have "WriteFile path m \<notin> set h0" using nw by (auto simp: list_ex_iff)
  with w s have "photos m = ps" by auto
  with process_items_photos [OF l] assms(2) show ?thesis by auto
qed

text \<open>
  C8 (as amended). Every photo of a manifest the run writes, with source dimensions
  below \<open>2\<^sup>3\<^sup>2\<close>, has a thumbnail no wider than the source and at least one pixel
  high. A source no wider than 900 keeps its own width and height (400 by 300 stays 400
  by 300). The thumbnail height is \<open>max(1, round(thumbWidth \<sqdot> height / width))\<close> unless
  \<open>thumbWidth \<sqdot> height / width\<close> lies exactly half-way between two integers, where it is
  that value or one less.
\<close>

theorem never_upscale_law:
  assumes "WriteFile path m \<in> set (calls (run e))" and "p \<in> set (photos m)"
    and "photo_width p < 2 ^ 32" and "photo_height p < 2 ^ 32"
  shows "photo_thumbWidth p \<le> photo_width p \<and> 1 \<le> photo_thumbHeight p
    \<and> (photo_width p \<le> 900
          \<longrightarrow> photo_thumbWidth p = photo_width p \<and> photo_thumbHeight p = photo_height p)
    \<and> (frac (of_nat (photo_thumbWidth p) * of_nat (photo_height p) / of_nat (photo_width p) :: rat)
            \<noteq> 1 / 2
          \<longrightarrow> photo_thumbHeight p = exact_thumbHeight (photo_width p) (photo_height p))
    \<and> (photo_thumbHeight p = exact_thumbHeight (photo_width p) (photo_height p)
          \<or> photo_thumbHeight p = exact_thumbHeight (photo_width p) (photo_height p) - 1)
    \<and> thumbWidth_of 400 = 400 \<and> thumbHeight_of 400 300 = 300"
proof -
  from written_manifest_photos [OF assms(1,2)]
  have w: "0 < photo_width p" "0 < photo_height p"
    and t: "photo_thumbWidth p = thumbWidth_of (photo_width p)"
      "photo_thumbHeight p = thumbHeight_of (photo_width p) (photo_height p)"
    by simp_all
  from thumb_never_upscale [OF w assms(3,4)] show ?thesis unfolding t by blast
qed

theorem never_upscale_law_witness:
  "\<exists>m p. WriteFile ''/site/src/generated/gallery.manifest.json'' m
            \<in> set (calls (run (example_env [example_item (JString ''/photos/a.png'')])))
      \<and> p \<in> set (photos m)
      \<and> photo_width p = 4 \<and> photo_height p = 3
      \<and> photo_thumbWidth p = 4 \<and> photo_thumbHeight p = 3"
proof -
  let ?E = "example_env [example_item (JString ''/photos/a.png'')]"
  let ?p = "\<lparr>photo_id = ''photos-a-png'', photo_src = ''/photos/a.png'',
               photo_thumbSrc = ''/gallery/thumbs/photos/a.jpg'',
               photo_width = 4, photo_height = 3, photo_thumbWidth = 4,
               photo_thumbHeight = 3, photo_title = ''Rome'',
               photo_shotUsing = [], photo_location = [],
               photo_description = ''42''\<rparr>"
  let ?m = "\<lparr>generatedAt = ''2024-01-01T00:00:00.000Z'',
            thumb = \<lparr>policy_width = 900, policy_quality = 78, policy_format = ''jpeg''\<rparr>,
            photos = [?p]\<rparr>"
  have c: "calls (run ?E) = [Mkdir ''/site/src/generated'', Mkdir ''/site/public/gallery/thumbs'',
       Mkdir ''/site/public/gallery/thumbs/photos'',
       ToFile ''/site/public/photos/a.png'' 4 3 ''/site/public/gallery/thumbs/photos/a.jpg'',
       WriteFile ''/site/src/generated/gallery.manifest.json'' ?m]"
    by code_simp
  have w: "WriteFile ''/site/src/generated/gallery.manifest.json'' ?m \<in> set (calls (run ?E))"
    unfolding c by simp
  have p: "?p \<in> set (photos ?m)" by simp
  from never_upscale_law [OF w p]
  have "photo_thumbWidth ?p = photo_width ?p \<and> photo_thumbHeight ?p = photo_height ?p"
    by simp
  with w p show ?thesis
    by (intro exI [of _ ?m] exI [of _ ?p]) simp
qed

end
